theory Spec2Isabelle
  imports Main "HOL-Library.Word"
begin

unbundle bit_operations_syntax

section \<open>Bytes, strings and 32-bit numbers\<close>

text \<open>
  A \<^verbatim>\<open>Uint8Array\<close> is a list of bytes. A JavaScript string is a list of UTF-16 code
  units, each a number below 65536 (\<^verbatim>\<open>charCodeAt\<close> reads one of them). The bitwise
  operators of JavaScript work on the 32-bit pattern of their operands, so the running
  checksum is a 32-bit word.
\<close>

type_synonym byte = "8 word"
type_synonym u32 = "32 word"
type_synonym jsstring = "nat list"

section \<open>The checksum engine\<close>

text \<open>The table local to \<^verbatim>\<open>bytesToCrc32\<close> in \<^verbatim>\<open>src/zip.js\<close> (written there in hexadecimal).\<close>

definition CRC_TABLE :: "u32 list" where
  "CRC_TABLE = [
   0x00000000, 0x77073096, 0xee0e612c, 0x990951ba, 0x076dc419, 0x706af48f,
   0xe963a535, 0x9e6495a3, 0x0edb8832, 0x79dcb8a4, 0xe0d5e91e, 0x97d2d988,
   0x09b64c2b, 0x7eb17cbd, 0xe7b82d07, 0x90bf1d91, 0x1db71064, 0x6ab020f2,
   0xf3b97148, 0x84be41de, 0x1adad47d, 0x6ddde4eb, 0xf4d4b551, 0x83d385c7,
   0x136c9856, 0x646ba8c0, 0xfd62f97a, 0x8a65c9ec, 0x14015c4f, 0x63066cd9,
   0xfa0f3d63, 0x8d080df5, 0x3b6e20c8, 0x4c69105e, 0xd56041e4, 0xa2677172,
   0x3c03e4d1, 0x4b04d447, 0xd20d85fd, 0xa50ab56b, 0x35b5a8fa, 0x42b2986c,
   0xdbbbc9d6, 0xacbcf940, 0x32d86ce3, 0x45df5c75, 0xdcd60dcf, 0xabd13d59,
   0x26d930ac, 0x51de003a, 0xc8d75180, 0xbfd06116, 0x21b4f4b5, 0x56b3c423,
   0xcfba9599, 0xb8bda50f, 0x2802b89e, 0x5f058808, 0xc60cd9b2, 0xb10be924,
   0x2f6f7c87, 0x58684c11, 0xc1611dab, 0xb6662d3d, 0x76dc4190, 0x01db7106,
   0x98d220bc, 0xefd5102a, 0x71b18589, 0x06b6b51f, 0x9fbfe4a5, 0xe8b8d433,
   0x7807c9a2, 0x0f00f934, 0x9609a88e, 0xe10e9818, 0x7f6a0dbb, 0x086d3d2d,
   0x91646c97, 0xe6635c01, 0x6b6b51f4, 0x1c6c6162, 0x856530d8, 0xf262004e,
   0x6c0695ed, 0x1b01a57b, 0x8208f4c1, 0xf50fc457, 0x65b0d9c6, 0x12b7e950,
   0x8bbeb8ea, 0xfcb9887c, 0x62dd1ddf, 0x15da2d49, 0x8cd37cf3, 0xfbd44c65,
   0x4db26158, 0x3ab551ce, 0xa3bc0074, 0xd4bb30e2, 0x4adfa541, 0x3dd895d7,
   0xa4d1c46d, 0xd3d6f4fb, 0x4369e96a, 0x346ed9fc, 0xad678846, 0xda60b8d0,
   0x44042d73, 0x33031de5, 0xaa0a4c5f, 0xdd0d7cc9, 0x5005713c, 0x270241aa,
   0xbe0b1010, 0xc90c2086, 0x5768b525, 0x206f85b3, 0xb966d409, 0xce61e49f,
   0x5edef90e, 0x29d9c998, 0xb0d09822, 0xc7d7a8b4, 0x59b33d17, 0x2eb40d81,
   0xb7bd5c3b, 0xc0ba6cad, 0xedb88320, 0x9abfb3b6, 0x03b6e20c, 0x74b1d29a,
   0xead54739, 0x9dd277af, 0x04db2615, 0x73dc1683, 0xe3630b12, 0x94643b84,
   0x0d6d6a3e, 0x7a6a5aa8, 0xe40ecf0b, 0x9309ff9d, 0x0a00ae27, 0x7d079eb1,
   0xf00f9344, 0x8708a3d2, 0x1e01f268, 0x6906c2fe, 0xf762575d, 0x806567cb,
   0x196c3671, 0x6e6b06e7, 0xfed41b76, 0x89d32be0, 0x10da7a5a, 0x67dd4acc,
   0xf9b9df6f, 0x8ebeeff9, 0x17b7be43, 0x60b08ed5, 0xd6d6a3e8, 0xa1d1937e,
   0x38d8c2c4, 0x4fdff252, 0xd1bb67f1, 0xa6bc5767, 0x3fb506dd, 0x48b2364b,
   0xd80d2bda, 0xaf0a1b4c, 0x36034af6, 0x41047a60, 0xdf60efc3, 0xa867df55,
   0x316e8eef, 0x4669be79, 0xcb61b38c, 0xbc66831a, 0x256fd2a0, 0x5268e236,
   0xcc0c7795, 0xbb0b4703, 0x220216b9, 0x5505262f, 0xc5ba3bbe, 0xb2bd0b28,
   0x2bb45a92, 0x5cb36a04, 0xc2d7ffa7, 0xb5d0cf31, 0x2cd99e8b, 0x5bdeae1d,
   0x9b64c2b0, 0xec63f226, 0x756aa39c, 0x026d930a, 0x9c0906a9, 0xeb0e363f,
   0x72076785, 0x05005713, 0x95bf4a82, 0xe2b87a14, 0x7bb12bae, 0x0cb61b38,
   0x92d28e9b, 0xe5d5be0d, 0x7cdcefb7, 0x0bdbdf21, 0x86d3d2d4, 0xf1d4e242,
   0x68ddb3f8, 0x1fda836e, 0x81be16cd, 0xf6b9265b, 0x6fb077e1, 0x18b74777,
   0x88085ae6, 0xff0f6a70, 0x66063bca, 0x11010b5c, 0x8f659eff, 0xf862ae69,
   0x616bffd3, 0x166ccf45, 0xa00ae278, 0xd70dd2ee, 0x4e048354, 0x3903b3c2,
   0xa7672661, 0xd06016f7, 0x4969474d, 0x3e6e77db, 0xaed16a4a, 0xd9d65adc,
   0x40df0b66, 0x37d83bf0, 0xa9bcae53, 0xdebb9ec5, 0x47b2cf7f, 0x30b5ffe9,
   0xbdbdf21c, 0xcabac28a, 0x53b39330, 0x24b4a3a6, 0xbad03605, 0xcdd70693,
   0x54de5729, 0x23d967bf, 0xb3667a2e, 0xc4614ab8, 0x5d681b02, 0x2a6f2b94,
   0xb40bbe37, 0xc30c8ea1, 0x5a05df1b, 0x2d02ef8d]"

text \<open>The table \<^verbatim>\<open>Zipper._CRC_TABLE\<close> of \<^verbatim>\<open>src/src/zip.js\<close> (written there in decimal).\<close>

definition Zipper_CRC_TABLE :: "u32 list" where
  "Zipper_CRC_TABLE = [
   0, 1996959894, 3993919788, 2567524794, 124634137, 1886057615, 3915621685, 2657392035, 249268274, 2044508324,
   3772115230, 2547177864, 162941995, 2125561021, 3887607047, 2428444049, 498536548, 1789927666, 4089016648, 2227061214,
   450548861, 1843258603, 4107580753, 2211677639, 325883990, 1684777152, 4251122042, 2321926636, 335633487, 1661365465,
   4195302755, 2366115317, 997073096, 1281953886, 3579855332, 2724688242, 1006888145, 1258607687, 3524101629, 2768942443,
   901097722, 1119000684, 3686517206, 2898065728, 853044451, 1172266101, 3705015759, 2882616665, 651767980, 1373503546,
   3369554304, 3218104598, 565507253, 1454621731, 3485111705, 3099436303, 671266974, 1594198024, 3322730930, 2970347812,
   795835527, 1483230225, 3244367275, 3060149565, 1994146192, 31158534, 2563907772, 4023717930, 1907459465, 112637215,
   2680153253, 3904427059, 2013776290, 251722036, 2517215374, 3775830040, 2137656763, 141376813, 2439277719, 3865271297,
   1802195444, 476864866, 2238001368, 4066508878, 1812370925, 453092731, 2181625025, 4111451223, 1706088902, 314042704,
   2344532202, 4240017532, 1658658271, 366619977, 2362670323, 4224994405, 1303535960, 984961486, 2747007092, 3569037538,
   1256170817, 1037604311, 2765210733, 3554079995, 1131014506, 879679996, 2909243462, 3663771856, 1141124467, 855842277,
   2852801631, 3708648649, 1342533948, 654459306, 3188396048, 3373015174, 1466479909, 544179635, 3110523913, 3462522015,
   1591671054, 702138776, 2966460450, 3352799412, 1504918807, 783551873, 3082640443, 3233442989, 3988292384, 2596254646,
   62317068, 1957810842, 3939845945, 2647816111, 81470997, 1943803523, 3814918930, 2489596804, 225274430, 2053790376,
   3826175755, 2466906013, 167816743, 2097651377, 4027552580, 2265490386, 503444072, 1762050814, 4150417245, 2154129355,
   426522225, 1852507879, 4275313526, 2312317920, 282753626, 1742555852, 4189708143, 2394877945, 397917763, 1622183637,
   3604390888, 2714866558, 953729732, 1340076626, 3518719985, 2797360999, 1068828381, 1219638859, 3624741850, 2936675148,
   906185462, 1090812512, 3747672003, 2825379669, 829329135, 1181335161, 3412177804, 3160834842, 628085408, 1382605366,
   3423369109, 3138078467, 570562233, 1426400815, 3317316542, 2998733608, 733239954, 1555261956, 3268935591, 3050360625,
   752459403, 1541320221, 2607071920, 3965973030, 1969922972, 40735498, 2617837225, 3943577151, 1913087877, 83908371,
   2512341634, 3803740692, 2075208622, 213261112, 2463272603, 3855990285, 2094854071, 198958881, 2262029012, 4057260610,
   1759359992, 534414190, 2176718541, 4139329115, 1873836001, 414664567, 2282248934, 4279200368, 1711684554, 285281116,
   2405801727, 4167216745, 1634467795, 376229701, 2685067896, 3608007406, 1308918612, 956543938, 2808555105, 3495958263,
   1231636301, 1047427035, 2932959818, 3654703836, 1088359270, 936918000, 2847714899, 3736837829, 1202900863, 817233897,
   3183342108, 3401237130, 1404277552, 615818150, 3134207493, 3453421203, 1423857449, 601450431, 3009837614, 3294710456,
   1567103746, 711928724, 3020668471, 3272380065, 1510334235, 755167117]"

text \<open>
  One round of the loop body
  \<^verbatim>\<open>crc = (crc >>> 8) ^ CRC_TABLE[(crc ^ bytes[i]) & 0xFF]\<close>.
  The index is below 256, the length of both tables.
\<close>

definition crc_update :: "u32 list \<Rightarrow> u32 \<Rightarrow> byte \<Rightarrow> u32" where
  "crc_update tab crc b = drop_bit 8 crc XOR tab ! unat ((crc XOR ucast b) AND 0xFF)"

text \<open>
  \<^verbatim>\<open>bytesToCrc32\<close> of \<^verbatim>\<open>src/zip.js\<close>: the accumulator starts at \<^verbatim>\<open>-1\<close>, the loop runs over
  the bytes in order, and \<^verbatim>\<open>(crc ^ (-1)) >>> 0\<close> is the unsigned reading of the
  complemented word.
\<close>

definition bytesToCrc32 :: "byte list \<Rightarrow> u32" where
  "bytesToCrc32 bytes = foldl (crc_update CRC_TABLE) (- 1) bytes XOR (- 1)"

text \<open>\<^verbatim>\<open>Zipper.bytesToCrc32\<close> of \<^verbatim>\<open>src/src/zip.js\<close>: the same loop over the other table.\<close>

definition Zipper_bytesToCrc32 :: "byte list \<Rightarrow> u32" where
  "Zipper_bytesToCrc32 bytes = foldl (crc_update Zipper_CRC_TABLE) (- 1) bytes XOR (- 1)"

subsection \<open>The reference CRC-32, bit by bit\<close>

text \<open>
  The reflected CRC-32 of PKZIP as the specification words it: polynomial
  \<^verbatim>\<open>0xEDB88320\<close>, accumulator all ones, each byte folded into the low end and shifted
  out one bit at a time, the result complemented. No table is involved.
\<close>

definition crc_shift :: "u32 \<Rightarrow> u32" where
  "crc_shift c = (if bit c 0 then drop_bit 1 c XOR 0xEDB88320 else drop_bit 1 c)"

fun crc_bits :: "nat \<Rightarrow> u32 \<Rightarrow> u32" where
  "crc_bits 0 c = c"
| "crc_bits (Suc n) c = crc_bits n (crc_shift c)"

definition crc32_spec :: "byte list \<Rightarrow> u32" where
  "crc32_spec bytes = NOT (foldl (\<lambda>c b. crc_bits 8 (c XOR ucast b)) (- 1) bytes)"

text \<open>A table lists, from index \<open>w\<close> on, the eight-round images of the consecutive indices.\<close>

fun table_from :: "u32 \<Rightarrow> u32 list \<Rightarrow> bool" where
  "table_from w [] = True"
| "table_from w (t # ts) = (t = crc_bits 8 w \<and> table_from (w + 1) ts)"

text \<open>The bytes of a string of ASCII characters.\<close>

definition ascii :: "string \<Rightarrow> byte list" where
  "ascii s = map of_char s"

section \<open>Numbers and the byte/field codec\<close>

text \<open>
  JavaScript's \<^verbatim>\<open>&\<close>, \<^verbatim>\<open><<\<close> and \<^verbatim>\<open>>>\<close> first convert their operands to signed 32-bit
  integers (\<^verbatim>\<open>ToInt32\<close>: the value modulo \<open>2^32\<close>, read in two's complement) and
  take the shift count modulo 32; \<^verbatim>\<open>>>\<close> keeps the sign.
\<close>

definition toInt32 :: "int \<Rightarrow> int" where
  "toInt32 n = signed_take_bit 31 n"

definition js_and :: "int \<Rightarrow> int \<Rightarrow> int" where
  "js_and a b = toInt32 a AND toInt32 b"

definition js_shl :: "int \<Rightarrow> nat \<Rightarrow> int" where
  "js_shl a k = toInt32 (push_bit (k mod 32) (toInt32 a))"

definition js_sar :: "int \<Rightarrow> nat \<Rightarrow> int" where
  "js_sar a k = drop_bit (k mod 32) (toInt32 a)"

text \<open>
  \<^verbatim>\<open>numberToBytes(n, len)\<close>, the same loop in \<^verbatim>\<open>src/zip.js\<close>, \<^verbatim>\<open>src/tar.js\<close> and
  (as \<^verbatim>\<open>Zipper.numberToBytes(n, pad)\<close>) in \<^verbatim>\<open>src/src/zip.js\<close>:
  \<^verbatim>\<open>while (i < len) { bytes[i] = n & 0xFF; n >>= 8; i += 1; }\<close>.
  Storing into a \<^verbatim>\<open>Uint8Array\<close> keeps the value modulo 256.
\<close>

fun numberToBytes :: "int \<Rightarrow> nat \<Rightarrow> byte list" where
  "numberToBytes n 0 = []"
| "numberToBytes n (Suc len) = word_of_int (js_and n 0xFF) # numberToBytes (js_sar n 8) len"

text \<open>
  \<^verbatim>\<open>Zipper.bytesToNumber\<close>: from the last byte down to the first,
  \<^verbatim>\<open>n <<= 8; n += bytes[i] & 0xFF\<close>.
\<close>

definition Zipper_bytesToNumber :: "byte list \<Rightarrow> int" where
  "Zipper_bytesToNumber bytes = foldr (\<lambda>b n. js_shl n 8 + js_and (uint b) 0xFF) bytes 0"

text \<open>
  \<^verbatim>\<open>Zipper.stringToBytes\<close> and \<^verbatim>\<open>Zipper.bytesToString\<close>: one byte per code unit, the
  code unit taken modulo 256 by the store into the \<^verbatim>\<open>Uint8Array\<close>.
\<close>

definition Zipper_stringToBytes :: "jsstring \<Rightarrow> byte list" where
  "Zipper_stringToBytes str = map of_nat str"

definition Zipper_bytesToString :: "byte list \<Rightarrow> jsstring" where
  "Zipper_bytesToString bytes = map unat bytes"

text \<open>
  \<^verbatim>\<open>stringToBytes(str, len)\<close> of \<^verbatim>\<open>src/zip.js\<close> and \<^verbatim>\<open>src/tar.js\<close>: \<open>len\<close> defaults to
  the length of the string; \<^verbatim>\<open>charCodeAt\<close> past the end is \<^verbatim>\<open>NaN\<close>, stored as 0.
\<close>

definition stringToBytes :: "jsstring \<Rightarrow> nat option \<Rightarrow> byte list" where
  "stringToBytes str len =
     (let n = (case len of None \<Rightarrow> length str | Some l \<Rightarrow> l)
      in map of_nat (take n str) @ replicate (n - length str) 0)"

text \<open>A string literal of the source, as code units.\<close>

definition js :: "string \<Rightarrow> jsstring" where
  "js s = map of_char s"

text \<open>The unsigned little-endian reading of a field, as a ZIP reader takes it.\<close>

fun le_value :: "byte list \<Rightarrow> nat" where
  "le_value [] = 0"
| "le_value (b # bs) = unat b + 256 * le_value bs"

section \<open>Dates\<close>

text \<open>
  A \<^verbatim>\<open>Date\<close> is read through its local-time getters only, so it is the record of what
  they return; \<^verbatim>\<open>getMonth\<close> counts from 0.
\<close>

record jsdate =
  getFullYear :: int
  getMonth :: int
  getDate :: int
  getHours :: int
  getMinutes :: int
  getSeconds :: int

text \<open>
  The setters of a \<^verbatim>\<open>Date\<close> compute in local time: they replace the named fields in the
  local reading of the \<^verbatim>\<open>Date\<close> and hand the local time asked for to the environment,
  which turns it into a time value (carrying fields out of range over into the next
  ones, and moving on a local time that the time zone skips); the getters then read that
  time value in local time again. What the environment makes of the local time asked
  for is the parameter \<open>zone\<close> of the setters: the source does not determine it.
\<close>

definition setFullYear :: "(jsdate \<Rightarrow> jsdate) \<Rightarrow> jsdate \<Rightarrow> int \<Rightarrow> int \<Rightarrow> int \<Rightarrow> jsdate" where
  "setFullYear zone d year month day =
     zone (d\<lparr>getFullYear := year, getMonth := month, getDate := day\<rparr>)"

definition setHours :: "(jsdate \<Rightarrow> jsdate) \<Rightarrow> jsdate \<Rightarrow> int \<Rightarrow> jsdate" where
  "setHours zone d hours = zone (d\<lparr>getHours := hours\<rparr>)"

definition setMinutes :: "(jsdate \<Rightarrow> jsdate) \<Rightarrow> jsdate \<Rightarrow> int \<Rightarrow> jsdate" where
  "setMinutes zone d minutes = zone (d\<lparr>getMinutes := minutes\<rparr>)"

definition setSeconds :: "(jsdate \<Rightarrow> jsdate) \<Rightarrow> jsdate \<Rightarrow> int \<Rightarrow> jsdate" where
  "setSeconds zone d seconds = zone (d\<lparr>getSeconds := seconds\<rparr>)"

text \<open>
  The time zone has a local time when it hands it back as it is, and it has the day of a
  local time when it hands back a time of that day.
\<close>

definition has_time :: "(jsdate \<Rightarrow> jsdate) \<Rightarrow> jsdate \<Rightarrow> bool" where
  "has_time zone d = (zone d = d)"

definition same_day :: "jsdate \<Rightarrow> jsdate \<Rightarrow> bool" where
  "same_day a b =
     (getFullYear a = getFullYear b \<and> getMonth a = getMonth b \<and> getDate a = getDate b)"

definition has_day :: "(jsdate \<Rightarrow> jsdate) \<Rightarrow> jsdate \<Rightarrow> bool" where
  "has_day zone d = same_day (zone d) d"

subsection \<open>The date codec of \<^verbatim>\<open>src/src/zip.js\<close>\<close>

text \<open>\<^verbatim>\<open>Zipper.dateToBytes\<close>: \<^verbatim>\<open>n = (year << 9) + (month << 5) + day\<close>, in two bytes.\<close>

definition Zipper_dateToBytes :: "jsdate \<Rightarrow> byte list" where
  "Zipper_dateToBytes date =
     (let day = getDate date;
          month = getMonth date + 1;
          year = getFullYear date - 1980;
          n = js_shl year 9 + js_shl month 5 + day
      in numberToBytes n 2)"

text \<open>
  \<^verbatim>\<open>Zipper.timeToBytes\<close>: \<^verbatim>\<open>s = Math.floor(date.getSeconds() * 0.5)\<close> and
  \<^verbatim>\<open>n = (h << 11) + (m << 5) + s\<close>, in two bytes.
\<close>

definition Zipper_timeToBytes :: "jsdate \<Rightarrow> byte list" where
  "Zipper_timeToBytes date =
     (let h = getHours date;
          m = getMinutes date;
          s = getSeconds date div 2;
          n = js_shl h 11 + js_shl m 5 + s
      in numberToBytes n 2)"

text \<open>
  \<^verbatim>\<open>Zipper.bytesToDate\<close> and \<^verbatim>\<open>Zipper.bytesToTime\<close> start from \<^verbatim>\<open>new Date(0)\<close>, whose
  local reading depends on the time zone: it is the parameter \<open>epoch\<close>. They set the
  fields read from the bytes with the setters, hence through the time zone.
\<close>

definition Zipper_bytesToDate :: "(jsdate \<Rightarrow> jsdate) \<Rightarrow> jsdate \<Rightarrow> byte list \<Rightarrow> jsdate" where
  "Zipper_bytesToDate zone epoch bytes =
     (let n = Zipper_bytesToNumber bytes;
          day = js_and n 31;
          month = js_and (js_sar n 5) 15 - 1;
          year = js_and (js_sar n 9) 127 + 1980;
          d = epoch
      in setFullYear zone d year month day)"

definition Zipper_bytesToTime :: "(jsdate \<Rightarrow> jsdate) \<Rightarrow> jsdate \<Rightarrow> byte list \<Rightarrow> jsdate" where
  "Zipper_bytesToTime zone epoch bytes =
     (let n = Zipper_bytesToNumber bytes;
          seconds = js_and n 31 * 2;
          minutes = js_and (js_sar n 5) 63;
          hours = js_and (js_sar n 11) 31;
          d = epoch;
          d = setHours zone d hours;
          d = setMinutes zone d minutes;
          d = setSeconds zone d seconds
      in d)"

section \<open>JavaScript values handed to the archive builders\<close>

text \<open>
  The values a caller can pass where the source inspects the type of its argument:
  \<^verbatim>\<open>undefined\<close>, \<^verbatim>\<open>null\<close>, booleans, numbers (integers and \<^verbatim>\<open>NaN\<close>), strings,
  \<^verbatim>\<open>Uint8Array\<close>, \<^verbatim>\<open>ArrayBuffer\<close>, any other typed array (its elements as integers), an
  \<^verbatim>\<open>Array\<close> of integers, and any other object.
\<close>

datatype jsval =
    JUndefined
  | JNull
  | JBool bool
  | JNumber int
  | JNaN
  | JString jsstring
  | JUint8Array "byte list"
  | JArrayBuffer "byte list"
  | JTypedArray "int list"
  | JArray "int list"
  | JObject

text \<open>The truth value JavaScript gives a value in \<^verbatim>\<open>!data\<close> and \<^verbatim>\<open>!comment\<close>.\<close>

fun truthy :: "jsval \<Rightarrow> bool" where
  "truthy JUndefined = False"
| "truthy JNull = False"
| "truthy (JBool b) = b"
| "truthy (JNumber n) = (n \<noteq> 0)"
| "truthy JNaN = False"
| "truthy (JString s) = (s \<noteq> [])"
| "truthy (JUint8Array bs) = True"
| "truthy (JArrayBuffer bs) = True"
| "truthy (JTypedArray xs) = True"
| "truthy (JArray xs) = True"
| "truthy JObject = True"

text \<open>
  The chain that turns \<^verbatim>\<open>data\<close> into a \<^verbatim>\<open>Uint8Array\<close>, the same in \<^verbatim>\<open>addEntry\<close> of
  \<^verbatim>\<open>src/zip.js\<close> and \<^verbatim>\<open>_addEntry\<close> of \<^verbatim>\<open>src/src/zip.js\<close>, in the order of the source:
  \<^verbatim>\<open>instanceof Uint8Array\<close>, \<^verbatim>\<open>typeof data === 'string'\<close>, \<^verbatim>\<open>instanceof ArrayBuffer\<close>,
  \<^verbatim>\<open>ArrayBuffer.isView\<close>, \<^verbatim>\<open>Array.isArray\<close>, \<^verbatim>\<open>!data\<close>, and the final \<^verbatim>\<open>else\<close>, which is
  \<open>None\<close>. \<^verbatim>\<open>new Uint8Array(xs)\<close> keeps every element modulo 256.
\<close>

fun dataToBytes :: "jsval \<Rightarrow> byte list option" where
  "dataToBytes (JUint8Array bs) = Some bs"
| "dataToBytes (JString s) = Some (map of_nat s)"
| "dataToBytes (JArrayBuffer bs) = Some bs"
| "dataToBytes (JTypedArray xs) = Some (map word_of_int xs)"
| "dataToBytes (JArray xs) = Some (map word_of_int xs)"
| "dataToBytes v = (if \<not> truthy v then Some [] else None)"

section \<open>Paths\<close>

definition slash :: nat where
  "slash = 47"

text \<open>\<^verbatim>\<open>.replace(/\/+/g, '/')\<close>: every run of slashes becomes one slash.\<close>

fun collapse_slashes :: "jsstring \<Rightarrow> jsstring" where
  "collapse_slashes (c # d # cs) =
     (if c = slash \<and> d = slash then collapse_slashes (d # cs) else c # collapse_slashes (d # cs))"
| "collapse_slashes cs = cs"

text \<open>\<^verbatim>\<open>.replace(/^\//, '')\<close> and \<^verbatim>\<open>.replace(/\/$/, '')\<close>.\<close>

definition strip_leading_slash :: "jsstring \<Rightarrow> jsstring" where
  "strip_leading_slash s = (case s of [] \<Rightarrow> [] | c # cs \<Rightarrow> if c = slash then cs else s)"

definition strip_trailing_slash :: "jsstring \<Rightarrow> jsstring" where
  "strip_trailing_slash s = (if s \<noteq> [] \<and> last s = slash then butlast s else s)"

definition startsWith :: "jsstring \<Rightarrow> jsstring \<Rightarrow> bool" where
  "startsWith s p = (take (length p) s = p)"

definition endsWith :: "jsstring \<Rightarrow> jsstring \<Rightarrow> bool" where
  "endsWith s p = (length p \<le> length s \<and> drop (length s - length p) s = p)"

section \<open>The class \<^verbatim>\<open>Zipper\<close> of \<^verbatim>\<open>src/src/zip.js\<close>\<close>

text \<open>
  The object holds \<^verbatim>\<open>_parts\<close> (for each entry its local header, then its data) and
  \<^verbatim>\<open>_cd\<close> (for each entry its central directory header).
\<close>

record zipper =
  parts :: "byte list list"
  cd :: "byte list list"

definition Zipper_new :: zipper where
  "Zipper_new = \<lparr>parts = [], cd = []\<rparr>"

text \<open>
  \<^verbatim>\<open>subarray(begin, end)\<close> of a typed array: a negative index counts from the end, and
  both are clamped to the array.
\<close>

definition clamp_index :: "int \<Rightarrow> nat \<Rightarrow> nat" where
  "clamp_index i len = (if i < 0 then nat (max (int len + i) 0) else min (nat i) len)"

definition subarray :: "byte list \<Rightarrow> int \<Rightarrow> int \<Rightarrow> byte list" where
  "subarray bytes b e =
     (let from = clamp_index b (length bytes); to = clamp_index e (length bytes)
      in take (to - from) (drop from bytes))"

text \<open>\<^verbatim>\<open>getNames\<close> reads the names back out of the central directory headers.\<close>

definition getNames :: "zipper \<Rightarrow> jsstring list" where
  "getNames z =
     map (\<lambda>bytes.
            let filenameLength = Zipper_bytesToNumber (subarray bytes 28 30)
            in Zipper_bytesToString (subarray bytes 46 (46 + filenameLength)))
         (cd z)"

definition count :: "zipper \<Rightarrow> nat" where
  "count z = length (cd z)"

text \<open>The two array literals of \<^verbatim>\<open>_addEntry\<close>, from the pieces it computes.\<close>

definition localHeader ::
  "byte list \<Rightarrow> byte list \<Rightarrow> byte list \<Rightarrow> byte list \<Rightarrow> byte list \<Rightarrow> byte list \<Rightarrow>
   byte list \<Rightarrow> byte list \<Rightarrow> byte list" where
  "localHeader timeBytes dateBytes checksumBytes sizeBytes filenameLengthBytes
      extraFieldLengthBytes filenameBytes extraFieldBytes =
     [0x50, 0x4b, 0x03, 0x04, 0x0a, 0x00, 0x00, 0x00, 0x00, 0x00]
     @ timeBytes @ dateBytes @ checksumBytes @ sizeBytes @ sizeBytes
     @ filenameLengthBytes @ extraFieldLengthBytes @ filenameBytes @ extraFieldBytes"

definition cdHeader ::
  "byte list \<Rightarrow> byte list \<Rightarrow> byte list \<Rightarrow> byte list \<Rightarrow> byte list \<Rightarrow> byte list \<Rightarrow>
   byte list \<Rightarrow> byte list \<Rightarrow> byte list \<Rightarrow> byte list \<Rightarrow> byte list \<Rightarrow> byte list \<Rightarrow>
   byte list \<Rightarrow> byte list" where
  "cdHeader timeBytes dateBytes checksumBytes sizeBytes filenameLengthBytes
      extraFieldLengthBytes fileCommentLengthBytes diskStartBytes externalBytes offsetBytes
      filenameBytes extraFieldBytes fileCommentBytes =
     [0x50, 0x4b, 0x01, 0x02, 0x1e, 0x03, 0x0a, 0x00, 0x00, 0x00, 0x00, 0x00]
     @ timeBytes @ dateBytes @ checksumBytes @ sizeBytes @ sizeBytes
     @ filenameLengthBytes @ extraFieldLengthBytes @ fileCommentLengthBytes @ diskStartBytes
     @ [0x00, 0x00] @ externalBytes @ offsetBytes
     @ filenameBytes @ extraFieldBytes @ fileCommentBytes"

text \<open>
  The sum \<^verbatim>\<open>reduce((total, part) => total + part.length, 0)\<close> over a list of chunks.
\<close>

definition total_length :: "byte list list \<Rightarrow> nat" where
  "total_length ps = foldl (\<lambda>total part. total + length part) 0 ps"

text \<open>
  The second half of \<^verbatim>\<open>_addEntry\<close>, past its checks: the local header and the central
  directory header of an entry, from the validated name, the data as bytes, the folder
  flag, the date read by \<^verbatim>\<open>new Date()\<close> and the offset
  \<^verbatim>\<open>this._parts.reduce((total, part) => total + part.length, 0)\<close>.
\<close>

definition entry_localHeader :: "jsdate \<Rightarrow> jsstring \<Rightarrow> byte list \<Rightarrow> byte list" where
  "entry_localHeader date filename bytes =
     (let checksum = Zipper_bytesToCrc32 bytes;
          extraField = [];
          timeBytes = Zipper_timeToBytes date;
          dateBytes = Zipper_dateToBytes date;
          checksumBytes = numberToBytes (uint checksum) 4;
          sizeBytes = numberToBytes (int (length bytes)) 4;
          filenameLengthBytes = numberToBytes (int (length filename)) 2;
          extraFieldLengthBytes = numberToBytes (int (length (extraField :: jsstring))) 2;
          filenameBytes = Zipper_stringToBytes filename;
          extraFieldBytes = Zipper_stringToBytes extraField
      in localHeader timeBytes dateBytes checksumBytes sizeBytes filenameLengthBytes
           extraFieldLengthBytes filenameBytes extraFieldBytes)"

definition entry_cdHeader ::
  "jsdate \<Rightarrow> jsstring \<Rightarrow> byte list \<Rightarrow> bool \<Rightarrow> nat \<Rightarrow> byte list" where
  "entry_cdHeader date filename bytes isFolder offset =
     (let checksum = Zipper_bytesToCrc32 bytes;
          extraField = [];
          fileComment = [];
          timeBytes = Zipper_timeToBytes date;
          dateBytes = Zipper_dateToBytes date;
          checksumBytes = numberToBytes (uint checksum) 4;
          sizeBytes = numberToBytes (int (length bytes)) 4;
          filenameLengthBytes = numberToBytes (int (length filename)) 2;
          extraFieldLengthBytes = numberToBytes (int (length (extraField :: jsstring))) 2;
          filenameBytes = Zipper_stringToBytes filename;
          extraFieldBytes = Zipper_stringToBytes extraField;
          diskStartBytes = numberToBytes 0 2;
          offsetBytes = numberToBytes (int offset) 4;
          externalBytes =
            (if isFolder then [0x10, 0x00, 0xed, 0x41] else [0x00, 0x00, 0xa4, 0x81]);
          fileCommentBytes = Zipper_stringToBytes fileComment;
          fileCommentLengthBytes = numberToBytes (int (length fileCommentBytes)) 2
      in cdHeader timeBytes dateBytes checksumBytes sizeBytes filenameLengthBytes
           extraFieldLengthBytes fileCommentLengthBytes diskStartBytes externalBytes
           offsetBytes filenameBytes extraFieldBytes fileCommentBytes)"

text \<open>
  The first half of \<^verbatim>\<open>_addEntry\<close>: the checks on the name. The result is the name the
  entry is stored under, or \<open>None\<close> where the source warns and returns.
\<close>

definition entry_filename :: "zipper \<Rightarrow> jsval \<Rightarrow> bool \<Rightarrow> jsstring option" where
  "entry_filename z filename isFolder =
     (case filename of
        JString str \<Rightarrow>
          (let filename1 = strip_trailing_slash (strip_leading_slash (collapse_slashes str))
           in if length filename1 = 0 then None
              else
                let filename2 =
                      (if isFolder \<and> \<not> endsWith filename1 [slash]
                       then filename1 @ [slash] else filename1)
                in if length filename2 > 0xFF then None
                   else if filename2 \<in> set (getNames z) then None
                   else Some filename2)
      | _ \<Rightarrow> None)"

text \<open>
  \<^verbatim>\<open>_addEntry(filename, data, isFolder)\<close>. Every \<^verbatim>\<open>console.warn\<close> and \<^verbatim>\<open>return\<close> of the
  source leaves the object as it was; the number returned is always the length of
  \<^verbatim>\<open>_cd\<close> afterwards, that is \<open>count\<close> of the result.
\<close>

definition Zipper_addEntry :: "zipper \<Rightarrow> jsdate \<Rightarrow> jsval \<Rightarrow> jsval \<Rightarrow> bool \<Rightarrow> zipper" where
  "Zipper_addEntry z date filename data isFolder =
     (case entry_filename z filename isFolder of
        None \<Rightarrow> z
      | Some name \<Rightarrow>
          (case dataToBytes data of
             None \<Rightarrow> z
           | Some bytes \<Rightarrow>
               if length bytes > 0xFFFFFFFF then z
               else
                 z\<lparr>parts := parts z @ [entry_localHeader date name bytes, bytes],
                   cd := cd z
                     @ [entry_cdHeader date name bytes isFolder (total_length (parts z))]\<rparr>))"

text \<open>\<^verbatim>\<open>addFolder(path)\<close> passes \<^verbatim>\<open>null\<close> as data; \<^verbatim>\<open>addFile(path, data)\<close>.\<close>

definition addFolder :: "zipper \<Rightarrow> jsdate \<Rightarrow> jsval \<Rightarrow> zipper" where
  "addFolder z date path = Zipper_addEntry z date path JNull True"

definition addFile :: "zipper \<Rightarrow> jsdate \<Rightarrow> jsval \<Rightarrow> jsval \<Rightarrow> zipper" where
  "addFile z date path data = Zipper_addEntry z date path data False"

text \<open>
  \<^verbatim>\<open>pop()\<close>: \<^verbatim>\<open>this._cd.pop(); this._parts.pop(); this._parts.pop()\<close>. \<^verbatim>\<open>Array.pop\<close> on
  an empty array does nothing, as \<open>butlast\<close> on the empty list.
\<close>

definition pop :: "zipper \<Rightarrow> zipper" where
  "pop z = \<lparr>parts = butlast (butlast (parts z)), cd = butlast (cd z)\<rparr>"

text \<open>
  \<^verbatim>\<open>_getEOCD(comment)\<close>: a falsy or non-string comment becomes the empty string, a longer
  one is cut by \<^verbatim>\<open>substr(0, 65535)\<close>.
\<close>

definition Zipper_getEOCD :: "zipper \<Rightarrow> jsval \<Rightarrow> byte list" where
  "Zipper_getEOCD z comment =
     (let comment1 =
            (if \<not> truthy comment then []
             else case comment of
                    JString s \<Rightarrow> if length s > 65535 then take 65535 s else s
                  | _ \<Rightarrow> []);
          numEntries = length (cd z);
          cdSize = total_length (cd z);
          cdOffset = total_length (parts z);
          numEntriesBytes = numberToBytes (int numEntries) 2;
          cdSizeBytes = numberToBytes (int cdSize) 4;
          cdOffsetBytes = numberToBytes (int cdOffset) 4;
          commentLengthBytes = numberToBytes (int (length comment1)) 2;
          commentBytes = Zipper_stringToBytes comment1
      in [0x50, 0x4b, 0x05, 0x06, 0x00, 0x00, 0x00, 0x00]
         @ numEntriesBytes @ numEntriesBytes @ cdSizeBytes @ cdOffsetBytes
         @ commentLengthBytes @ commentBytes)"

text \<open>\<^verbatim>\<open>toUint8Array(comment)\<close> lays the parts end to end in one buffer.\<close>

definition toUint8Array :: "zipper \<Rightarrow> jsval \<Rightarrow> byte list" where
  "toUint8Array z comment = concat (parts z @ cd z @ [Zipper_getEOCD z comment])"

text \<open>A sequence of calls on a fresh object.\<close>

datatype call = AddFile jsdate jsval jsval | AddFolder jsdate jsval | Pop

fun perform :: "zipper \<Rightarrow> call \<Rightarrow> zipper" where
  "perform z (AddFile date path data) = addFile z date path data"
| "perform z (AddFolder date path) = addFolder z date path"
| "perform z Pop = pop z"

definition run :: "call list \<Rightarrow> zipper" where
  "run calls = foldl perform Zipper_new calls"

section \<open>The prototype-based \<^verbatim>\<open>Zipper\<close> of \<^verbatim>\<open>src/zip.js\<close>\<close>

text \<open>The object holds \<^verbatim>\<open>_entries\<close>, a list of \<^verbatim>\<open>{ path, data }\<close>.\<close>

record entry =
  path :: jsstring
  data :: "byte list"

text \<open>The errors thrown by \<^verbatim>\<open>addEntry\<close> and \<^verbatim>\<open>validateComment\<close>, by their messages.\<close>

datatype error =
    PathEmpty \<comment> \<open>path is empty\<close>
  | PathTooLong \<comment> \<open>path exceeds maximum of 65535 characters.\<close>
  | PathExists \<comment> \<open>path already exists.\<close>
  | PathCollidesFolder \<comment> \<open>path collides with an existing folder.\<close>
  | ParentCollidesFile \<comment> \<open>path parent folder collides with an existing file.\<close>
  | DataUnsupported \<comment> \<open>Data must be one of the following: ...\<close>
  | DataTooLarge \<comment> \<open>data exceeds maximum size of 4294967295 bytes\<close>
  | CommentTooLong \<comment> \<open>Comment exceeds maximum of 65535 characters.\<close>

text \<open>
  \<^verbatim>\<open>.replace(/[\x00-\x19\x7F]/, '')\<close> has no \<^verbatim>\<open>g\<close> flag: it removes the first such
  character only.
\<close>

definition control_char :: "nat \<Rightarrow> bool" where
  "control_char c = (c \<le> 0x19 \<or> c = 0x7F)"

fun remove_first :: "(nat \<Rightarrow> bool) \<Rightarrow> jsstring \<Rightarrow> jsstring" where
  "remove_first P [] = []"
| "remove_first P (c # cs) = (if P c then cs else c # remove_first P cs)"

text \<open>\<^verbatim>\<open>.trim()\<close> removes the white space and line terminators of ECMAScript at both ends.\<close>

definition js_whitespace :: "nat \<Rightarrow> bool" where
  "js_whitespace c =
     (c = 0x09 \<or> c = 0x0A \<or> c = 0x0B \<or> c = 0x0C \<or> c = 0x0D \<or> c = 0x20 \<or> c = 0xA0
      \<or> c = 0x1680 \<or> (0x2000 \<le> c \<and> c \<le> 0x200A) \<or> c = 0x2028 \<or> c = 0x2029
      \<or> c = 0x202F \<or> c = 0x205F \<or> c = 0x3000 \<or> c = 0xFEFF)"

definition trim :: "jsstring \<Rightarrow> jsstring" where
  "trim s = rev (dropWhile js_whitespace (rev (dropWhile js_whitespace s)))"

text \<open>
  The first statement of \<^verbatim>\<open>addEntry\<close>. The path is taken as a string, on which
  \<^verbatim>\<open>String(path)\<close> changes nothing.
\<close>

definition normalize_path :: "jsstring \<Rightarrow> jsstring" where
  "normalize_path p =
     strip_trailing_slash (strip_leading_slash (trim (collapse_slashes
       (remove_first control_char p))))"

text \<open>\<^verbatim>\<open>getFile\<close>, \<^verbatim>\<open>hasFile\<close>, \<^verbatim>\<open>getFolder\<close>, \<^verbatim>\<open>hasFolder\<close>: the first matching entry.\<close>

definition getFile :: "entry list \<Rightarrow> jsstring \<Rightarrow> entry option" where
  "getFile es p = find (\<lambda>e. path e = p) es"

definition hasFile :: "entry list \<Rightarrow> jsstring \<Rightarrow> bool" where
  "hasFile es p = (getFile es p \<noteq> None)"

definition getFolder :: "entry list \<Rightarrow> jsstring \<Rightarrow> entry option" where
  "getFolder es p = find (\<lambda>e. startsWith (path e) (p @ [slash])) es"

definition hasFolder :: "entry list \<Rightarrow> jsstring \<Rightarrow> bool" where
  "hasFolder es p = (getFolder es p \<noteq> None)"

text \<open>\<^verbatim>\<open>split('/')\<close> and \<^verbatim>\<open>join('/')\<close>.\<close>

fun split_slash :: "jsstring \<Rightarrow> jsstring list" where
  "split_slash [] = [[]]"
| "split_slash (c # cs) =
     (if c = slash then [] # split_slash cs
      else case split_slash cs of [] \<Rightarrow> [[c]] | x # xs \<Rightarrow> (c # x) # xs)"

fun join_slash :: "jsstring list \<Rightarrow> jsstring" where
  "join_slash [] = []"
| "join_slash [x] = x"
| "join_slash (x # y # ys) = x @ [slash] @ join_slash (y # ys)"

text \<open>
  \<^verbatim>\<open>getFolderPathsFromPath\<close>: for \<^verbatim>\<open>my/file/here.txt\<close> the folders \<^verbatim>\<open>my\<close> and
  \<^verbatim>\<open>my/file\<close>.
\<close>

definition getFolderPathsFromPath :: "jsstring \<Rightarrow> jsstring list" where
  "getFolderPathsFromPath p =
     (let arr = (if p \<noteq> [] then split_slash p else [])
      in map (\<lambda>i. join_slash (take i arr)) [1..<length arr])"

text \<open>
  The checks of \<^verbatim>\<open>addEntry\<close> on the normalized path, in the order of the source; the
  result is the error thrown, if any.
\<close>

definition check_path :: "entry list \<Rightarrow> jsstring \<Rightarrow> error option" where
  "check_path es p =
     (if length p = 0 then Some PathEmpty
      else if length p > 0xFFFF then Some PathTooLong
      else if hasFile es p then Some PathExists
      else if hasFolder es p then Some PathCollidesFolder
      else if list_ex (hasFile es) (getFolderPathsFromPath p) then Some ParentCollidesFile
      else None)"

text \<open>
  \<^verbatim>\<open>addEntry(path, data)\<close>: each \<^verbatim>\<open>throw\<close> is an error value, and the entries are
  unchanged then. The number returned by \<^verbatim>\<open>push\<close> is the length of the new list.
\<close>

definition addEntry :: "entry list \<Rightarrow> jsstring \<Rightarrow> jsval \<Rightarrow> error + entry list" where
  "addEntry es p0 d =
     (let p = normalize_path p0
      in case check_path es p of
           Some err \<Rightarrow> Inl err
         | None \<Rightarrow>
             (case dataToBytes d of
                None \<Rightarrow> Inl DataUnsupported
              | Some bytes \<Rightarrow>
                  if length bytes > 0xFFFFFFFF then Inl DataTooLarge
                  else Inr (es @ [\<lparr>path = p, data = bytes\<rparr>])))"

subsection \<open>Headers\<close>

text \<open>
  \<^verbatim>\<open>dateToBytes(date)\<close> of \<^verbatim>\<open>src/zip.js\<close>, four bytes. \<^verbatim>\<open>_pack\<close> never passes a date, so the
  date is what \<^verbatim>\<open>new Date()\<close> reads at that moment.
\<close>

definition dateToBytes :: "jsdate \<Rightarrow> byte list" where
  "dateToBytes date =
     (let h = getHours date;
          m = getMinutes date;
          s = getSeconds date;
          year = getFullYear date - 1980;
          month = getMonth date + 1;
          day = getDate date
      in map word_of_int
           [js_shl h 3 + js_sar m 3,
            js_and (js_shl m 5) 0xFF + js_sar s 1,
            js_shl year 1 + js_sar month 3,
            js_and (js_shl month 5) 0xFF + day])"

text \<open>\<^verbatim>\<open>options.path || 'untitled'\<close>.\<close>

definition path_or_untitled :: "jsstring \<Rightarrow> jsstring" where
  "path_or_untitled p = (if p = [] then js ''untitled'' else p)"

text \<open>\<^verbatim>\<open>getLocalFileHeader({checksum, size, path})\<close>; \<^verbatim>\<open>concatArrays\<close> is \<open>concat\<close>.\<close>

definition getLocalFileHeader :: "int \<Rightarrow> int \<Rightarrow> jsstring \<Rightarrow> jsdate \<Rightarrow> byte list" where
  "getLocalFileHeader checksum sz p0 date =
     (let p = path_or_untitled p0; extra = []
      in concat
           [[0x50, 0x4b, 0x03, 0x04],
            [0x0a, 0x00],
            [0, 0],
            [0, 0],
            dateToBytes date,
            numberToBytes checksum 4,
            numberToBytes sz 4,
            numberToBytes sz 4,
            numberToBytes (int (length p)) 2,
            numberToBytes (int (length (extra :: jsstring))) 2,
            stringToBytes p None,
            stringToBytes extra None])"

text \<open>
  \<^verbatim>\<open>getCentralDirectoryHeader({checksum, size, path, offset})\<close>. \<^verbatim>\<open>_pack\<close> passes no
  comment, and \<^verbatim>\<open>validateComment('')\<close> is the empty string.
\<close>

definition getCentralDirectoryHeader ::
  "int \<Rightarrow> int \<Rightarrow> jsstring \<Rightarrow> int \<Rightarrow> jsdate \<Rightarrow> byte list" where
  "getCentralDirectoryHeader checksum sz p0 offset date =
     (let p = path_or_untitled p0; extra = []; comment = []
      in concat
           [[0x50, 0x4b, 0x01, 0x02],
            [0x1e, 0x03],
            [0x0a, 0x00],
            [0, 0],
            [0, 0],
            dateToBytes date,
            numberToBytes checksum 4,
            numberToBytes sz 4,
            numberToBytes sz 4,
            numberToBytes (int (length p)) 2,
            numberToBytes (int (length (extra :: jsstring))) 2,
            numberToBytes (int (length (comment :: jsstring))) 2,
            [0, 0],
            [0, 0],
            [0x00, 0x00, 0xa4, 0x81],
            numberToBytes offset 4,
            stringToBytes p None,
            stringToBytes extra None,
            stringToBytes comment None])"

text \<open>\<^verbatim>\<open>getEOCDHeader({entries, cdSize, cdOffset, comment})\<close>.\<close>

definition getEOCDHeader :: "int \<Rightarrow> int \<Rightarrow> int \<Rightarrow> jsstring \<Rightarrow> byte list" where
  "getEOCDHeader entries cdSize cdOffset comment =
     concat
       [[0x50, 0x4b, 0x05, 0x06],
        [0, 0],
        [0, 0],
        numberToBytes entries 2,
        numberToBytes entries 2,
        numberToBytes cdSize 4,
        numberToBytes cdOffset 4,
        numberToBytes (int (length comment)) 2,
        stringToBytes comment None]"

text \<open>
  \<^verbatim>\<open>validateComment(options.comment || '')\<close>. The comment is a string or absent
  (\<open>None\<close>); a string of more than 65535 characters throws.
\<close>

definition validateComment :: "jsstring option \<Rightarrow> error + jsstring" where
  "validateComment c =
     (case c of
        None \<Rightarrow> Inr []
      | Some str \<Rightarrow> if length str > 0xFFFF then Inl CommentTooLong else Inr str)"

subsection \<open>\<^verbatim>\<open>_pack\<close>\<close>

text \<open>The variables of the loop of \<^verbatim>\<open>_pack\<close>.\<close>

record packing =
  pk_parts :: "byte list list"
  pk_cd :: "byte list list"
  pk_offset :: nat
  pk_cdSize :: nat

text \<open>
  One round of the loop, for the entry at index \<open>i\<close>. Each of the two header builders
  reads the clock once: \<open>clock k\<close> is the \<open>k\<close>-th reading of \<^verbatim>\<open>new Date()\<close> during the call.
\<close>

definition pack_step :: "(nat \<Rightarrow> jsdate) \<Rightarrow> nat \<Rightarrow> entry \<Rightarrow> packing \<Rightarrow> packing" where
  "pack_step clock i e st =
     (let checksum = bytesToCrc32 (data e);
          localHeader = getLocalFileHeader (uint checksum) (int (length (data e))) (path e)
                          (clock (2 * i));
          cdHeader = getCentralDirectoryHeader (uint checksum) (int (length (data e))) (path e)
                          (int (pk_offset st)) (clock (2 * i + 1))
      in \<lparr>pk_parts = pk_parts st @ [localHeader, data e],
          pk_cd = pk_cd st @ [cdHeader],
          pk_offset = pk_offset st + (length localHeader + length (data e)),
          pk_cdSize = pk_cdSize st + length cdHeader\<rparr>)"

fun pack_loop :: "(nat \<Rightarrow> jsdate) \<Rightarrow> nat \<Rightarrow> entry list \<Rightarrow> packing \<Rightarrow> packing" where
  "pack_loop clock i [] st = st"
| "pack_loop clock i (e # es) st = pack_loop clock (Suc i) es (pack_step clock i e st)"

text \<open>
  \<^verbatim>\<open>_pack(options)\<close> returns \<^verbatim>\<open>parts.concat(cd, eocd)\<close>, the list of chunks, and leaves
  \<^verbatim>\<open>_entries\<close> as it is; \<^verbatim>\<open>toBlob\<close> lays the chunks end to end.
\<close>

definition pack :: "jsstring option \<Rightarrow> (nat \<Rightarrow> jsdate) \<Rightarrow> entry list \<Rightarrow> error + byte list list" where
  "pack comment0 clock es =
     (case validateComment comment0 of
        Inl err \<Rightarrow> Inl err
      | Inr comment \<Rightarrow>
          (let st = pack_loop clock 0 es \<lparr>pk_parts = [], pk_cd = [], pk_offset = 0, pk_cdSize = 0\<rparr>;
               eocd = getEOCDHeader (int (length (pk_cd st))) (int (pk_cdSize st))
                        (int (pk_offset st)) comment
           in Inr (pk_parts st @ pk_cd st @ [eocd])))"

definition toBlob :: "jsstring option \<Rightarrow> (nat \<Rightarrow> jsdate) \<Rightarrow> entry list \<Rightarrow> error + byte list" where
  "toBlob comment0 clock es =
     (case pack comment0 clock es of Inl err \<Rightarrow> Inl err | Inr chunks \<Rightarrow> Inr (concat chunks))"

text \<open>The offset field of a central directory header: the four bytes at position 42.\<close>

definition cd_offset_field :: "byte list \<Rightarrow> byte list" where
  "cd_offset_field h = take 4 (drop 42 h)"


text \<open>
  \<^verbatim>\<open>_pack\<close> as a method of the object. The state of the object is its list \<^verbatim>\<open>_entries\<close>,
  as for \<^verbatim>\<open>addEntry\<close>; a call gives the state after it and the chunks returned or the
  error thrown. \<^verbatim>\<open>_pack\<close> reads \<^verbatim>\<open>this._entries\<close> and assigns to its own variables only;
  the data chunks that it returns are the arrays of the entries, and it writes into none.
\<close>

definition pack_method ::
  "entry list \<Rightarrow> jsstring option \<Rightarrow> (nat \<Rightarrow> jsdate) \<Rightarrow> entry list \<times> (error + byte list list)" where
  "pack_method entries comment0 clock = (entries, pack comment0 clock entries)"
section \<open>The class \<^verbatim>\<open>ZipperStream\<close>\<close>

text \<open>
  The streaming builder (the unnamed source file that defines \<^verbatim>\<open>class ZipperStream\<close>).
  It calls \<^verbatim>\<open>timeToBytes\<close>, \<^verbatim>\<open>dateToBytes\<close>, \<^verbatim>\<open>numberToBytes\<close>, \<^verbatim>\<open>stringToBytes\<close> and reads
  \<^verbatim>\<open>CRC_TABLE\<close> without defining them; they are taken to be the helpers of
  \<^verbatim>\<open>src/src/zip.js\<close> and the table above. The object holds \<^verbatim>\<open>_totalBytes\<close> and \<^verbatim>\<open>_cd\<close>;
  \<open>s_out\<close> lists the chunks handed to \<^verbatim>\<open>controller.enqueue\<close>, in order.
\<close>

record zipperStream =
  s_totalBytes :: nat
  s_cd :: "byte list list"
  s_out :: "byte list list"

definition ZipperStream_new :: zipperStream where
  "ZipperStream_new = \<lparr>s_totalBytes = 0, s_cd = [], s_out = []\<rparr>"

text \<open>\<^verbatim>\<open>_enqueue(chunk)\<close>, the controller being in place since the constructor.\<close>

definition enqueue :: "zipperStream \<Rightarrow> byte list \<Rightarrow> zipperStream" where
  "enqueue s chunk = s\<lparr>s_out := s_out s @ [chunk], s_totalBytes := s_totalBytes s + length chunk\<rparr>"

text \<open>
  \<^verbatim>\<open>value[i]\<close> past the end of the chunk is \<^verbatim>\<open>undefined\<close>, and \<^verbatim>\<open>crc ^ undefined\<close> is
  \<^verbatim>\<open>crc ^ 0\<close>: the round is that of a zero byte.
\<close>

definition chunk_byte :: "byte list \<Rightarrow> nat \<Rightarrow> byte" where
  "chunk_byte v i = (if i < length v then v ! i else 0)"

text \<open>
  The inner loop
  \<^verbatim>\<open>while (i < fileLength) { crc = (crc >>> 8) ^ CRC_TABLE[(crc ^ value[i]) & 0xFF]; i++; }\<close>
  on the chunk \<open>v\<close>. Neither \<open>i\<close> nor \<open>crc\<close> is reset between chunks.
\<close>

function crc_loop :: "byte list \<Rightarrow> nat \<Rightarrow> u32 \<Rightarrow> nat \<Rightarrow> u32 \<times> nat" where
  "crc_loop v fileLength crc i =
     (if i < fileLength
      then crc_loop v fileLength (crc_update CRC_TABLE crc (chunk_byte v i)) (Suc i)
      else (crc, i))"
  by pat_completeness auto
termination
  by (relation "measure (\<lambda>(v, fileLength, crc, i). fileLength - i)") auto

declare crc_loop.simps [simp del]

text \<open>
  The outer loop \<^verbatim>\<open>while (true)\<close> over the chunks the source delivers before it is done.
  A chunk that takes the length past \<^verbatim>\<open>0xFFFFFFFF\<close> cancels the source and leaves the
  loop.
\<close>

record reading =
  rd_stream :: zipperStream
  rd_crc :: u32
  rd_fileLength :: nat
  rd_i :: nat

fun read_loop :: "byte list list \<Rightarrow> reading \<Rightarrow> reading" where
  "read_loop [] st = st"
| "read_loop (v # rest) st =
     (let fileLength = rd_fileLength st + length v
      in if fileLength > 0xFFFFFFFF then st\<lparr>rd_fileLength := fileLength\<rparr>
         else
           let s = enqueue (rd_stream st) v;
               (crc, i) = crc_loop v fileLength (rd_crc st) (rd_i st)
           in read_loop rest
                \<lparr>rd_stream = s, rd_crc = crc, rd_fileLength = fileLength, rd_i = i\<rparr>)"

text \<open>
  The class defines no method \<^verbatim>\<open>_error\<close>, so each \<^verbatim>\<open>this._error(...)\<close> of \<^verbatim>\<open>addStream\<close>
  throws a \<^verbatim>\<open>TypeError\<close> and the promise is rejected.
\<close>

datatype stream_error = ErrorIsNotAFunction

text \<open>The three array literals of \<^verbatim>\<open>addStream\<close>.\<close>

definition stream_localHeader :: "jsdate \<Rightarrow> jsstring \<Rightarrow> byte list" where
  "stream_localHeader date filename =
     (let extraField = [];
          timeBytes = Zipper_timeToBytes date;
          dateBytes = Zipper_dateToBytes date;
          filenameLengthBytes = numberToBytes (int (length filename)) 2;
          extraFieldLengthBytes = numberToBytes (int (length (extraField :: jsstring))) 2;
          filenameBytes = Zipper_stringToBytes filename;
          extraFieldBytes = Zipper_stringToBytes extraField
      in [0x50, 0x4b, 0x03, 0x04, 0x14, 0x00, 0x08, 0x00, 0x00, 0x00]
         @ timeBytes @ dateBytes
         @ [0x00, 0x00, 0x00, 0x00, 0x00, 0x00, 0x00, 0x00, 0x00, 0x00, 0x00, 0x00]
         @ filenameLengthBytes @ extraFieldLengthBytes @ filenameBytes @ extraFieldBytes)"

definition dataDescriptor :: "u32 \<Rightarrow> nat \<Rightarrow> byte list" where
  "dataDescriptor crc fileLength =
     (let checksum = crc XOR (- 1);
          checksumBytes = numberToBytes (uint checksum) 4;
          sizeBytes = numberToBytes (int fileLength) 4
      in [0x50, 0x4b, 0x07, 0x08] @ checksumBytes @ sizeBytes @ sizeBytes)"

definition stream_cdHeader :: "jsdate \<Rightarrow> jsstring \<Rightarrow> u32 \<Rightarrow> nat \<Rightarrow> nat \<Rightarrow> byte list" where
  "stream_cdHeader date filename crc fileLength offset =
     (let checksum = crc XOR (- 1);
          extraField = [];
          fileComment = [];
          timeBytes = Zipper_timeToBytes date;
          dateBytes = Zipper_dateToBytes date;
          checksumBytes = numberToBytes (uint checksum) 4;
          sizeBytes = numberToBytes (int fileLength) 4;
          filenameLengthBytes = numberToBytes (int (length filename)) 2;
          extraFieldLengthBytes = numberToBytes (int (length (extraField :: jsstring))) 2;
          filenameBytes = Zipper_stringToBytes filename;
          extraFieldBytes = Zipper_stringToBytes extraField;
          diskStartBytes = numberToBytes 0 2;
          offsetBytes = numberToBytes (int offset) 4;
          externalBytes = [0x00, 0x00, 0xa4, 0x81];
          fileCommentBytes = Zipper_stringToBytes fileComment;
          fileCommentLengthBytes = numberToBytes (int (length fileCommentBytes)) 2
      in [0x50, 0x4b, 0x01, 0x02, 0x2d, 0x03, 0x14, 0x00, 0x08, 0x00, 0x00, 0x00]
         @ timeBytes @ dateBytes @ checksumBytes @ sizeBytes @ sizeBytes
         @ filenameLengthBytes @ extraFieldLengthBytes @ fileCommentLengthBytes
         @ diskStartBytes @ [0x00, 0x00] @ externalBytes @ offsetBytes
         @ filenameBytes @ extraFieldBytes @ fileCommentBytes)"

text \<open>
  \<^verbatim>\<open>addStream(filename, readStream)\<close>, the source delivering \<open>chunks\<close> and then reporting
  that it is done. The result is the object afterwards and either the error or the
  number returned, the length of \<^verbatim>\<open>_cd\<close>.
\<close>

definition addStream ::
  "zipperStream \<Rightarrow> jsdate \<Rightarrow> jsval \<Rightarrow> byte list list \<Rightarrow> zipperStream \<times> (stream_error + nat)" where
  "addStream s date filename chunks =
     (case filename of
        JString str \<Rightarrow>
          (let name = strip_trailing_slash (strip_leading_slash (collapse_slashes str))
           in if length name = 0 then (s, Inl ErrorIsNotAFunction)
              else
                let offset = s_totalBytes s;
                    s1 = enqueue s (stream_localHeader date name);
                    st = read_loop chunks
                           \<lparr>rd_stream = s1, rd_crc = - 1, rd_fileLength = 0, rd_i = 0\<rparr>
                in if rd_fileLength st > 0xFFFFFFFF then (rd_stream st, Inl ErrorIsNotAFunction)
                   else
                     let s2 = enqueue (rd_stream st)
                                (dataDescriptor (rd_crc st) (rd_fileLength st));
                         s3 = s2\<lparr>s_cd := s_cd s2
                                @ [stream_cdHeader date name (rd_crc st) (rd_fileLength st) offset]\<rparr>
                     in (s3, Inr (length (s_cd s3))))
      | _ \<Rightarrow> (s, Inl ErrorIsNotAFunction))"

text \<open>
  The Data Descriptor an \<^verbatim>\<open>addStream\<close> call emits is the last chunk enqueued; its CRC field
  is the four bytes at position 4, its size fields the four bytes at positions 8 and 12.
\<close>

definition emitted_descriptor :: "zipperStream \<times> (stream_error + nat) \<Rightarrow> byte list" where
  "emitted_descriptor r = last (s_out (fst r))"

definition descriptor_crc :: "byte list \<Rightarrow> byte list" where
  "descriptor_crc desc = take 4 (drop 4 desc)"

definition descriptor_size1 :: "byte list \<Rightarrow> byte list" where
  "descriptor_size1 desc = take 4 (drop 8 desc)"

definition descriptor_size2 :: "byte list \<Rightarrow> byte list" where
  "descriptor_size2 desc = take 4 (drop 12 desc)"

section \<open>The TAR builder of \<^verbatim>\<open>src/tar.js\<close>\<close>

text \<open>\<^verbatim>\<open>Number.prototype.toString\<close> of a natural number, in base 10 and in base 8.\<close>

function decimal :: "nat \<Rightarrow> jsstring" where
  "decimal n = (if n < 10 then [48 + n] else decimal (n div 10) @ [48 + n mod 10])"
  by pat_completeness auto
termination
  by (relation "measure id") auto

declare decimal.simps [simp del]

function octal :: "nat \<Rightarrow> jsstring" where
  "octal n = (if n < 8 then [48 + n] else octal (n div 8) @ [48 + n mod 8])"
  by pat_completeness auto
termination
  by (relation "measure id") auto

declare octal.simps [simp del]

text \<open>\<^verbatim>\<open>str.substr(str.length - k)\<close>: the last \<open>k\<close> code units (the strings here are longer).\<close>

definition last_chars :: "nat \<Rightarrow> jsstring \<Rightarrow> jsstring" where
  "last_chars k str = drop (length str - k) str"

text \<open>\<^verbatim>\<open>sumOfArrays\<close>: the sum of all bytes of all arrays.\<close>

definition sumOfArrays :: "byte list list \<Rightarrow> nat" where
  "sumOfArrays arrs = foldl (\<lambda>sum arr. foldl (\<lambda>t b. t + unat b) sum arr) 0 arrs"

text \<open>
  \<^verbatim>\<open>getTarHeader({path, size})\<close>. \<open>secs\<close> is \<^verbatim>\<open>Math.floor(Number(date) * 0.001)\<close> for the
  date read by \<^verbatim>\<open>new Date()\<close>: the clock in whole seconds.
\<close>

definition getTarHeader :: "jsstring \<Rightarrow> nat \<Rightarrow> nat \<Rightarrow> byte list" where
  "getTarHeader p sz secs =
     (let pathBytes = stringToBytes p (Some 100);
          modeBytes = stringToBytes (js ''000644 '') (Some 8);
          ownerBytes = stringToBytes (js ''000000 '') (Some 8);
          groupBytes = stringToBytes (js ''000000 '') (Some 8);
          sizeStr = last_chars 12 (js ''00000000000'' @ decimal sz @ js '' '');
          sizeBytes = stringToBytes sizeStr (Some 12);
          dateStr = last_chars 12 (js ''00000000000'' @ octal secs @ js '' '');
          dateBytes = stringToBytes dateStr (Some 12);
          linkBytes = stringToBytes (js ''0'') None;
          linkPathBytes = stringToBytes (js []) (Some 100);
          sum = sumOfArrays
                  [pathBytes, modeBytes, ownerBytes, groupBytes, sizeBytes, dateBytes,
                   [32, 32, 32, 32, 32, 32, 32, 32], linkBytes, linkPathBytes];
          checksumStr = last_chars 6 (js ''000000'' @ octal sum);
          checksumBytes = concat [stringToBytes checksumStr None, [0, 32]]
      in concat
           [pathBytes, modeBytes, ownerBytes, groupBytes, sizeBytes, dateBytes, checksumBytes,
            linkBytes, linkPathBytes, replicate 255 0])"

text \<open>
  \<^verbatim>\<open>addFile(path, data)\<close> of the TAR builder stores the pair as it is; the data is taken
  to be a \<^verbatim>\<open>Uint8Array\<close>.
\<close>

definition tar_addFile :: "entry list \<Rightarrow> jsstring \<Rightarrow> byte list \<Rightarrow> entry list" where
  "tar_addFile files p d = files @ [\<lparr>path = p, data = d\<rparr>]"

text \<open>
  One round of the loop of \<^verbatim>\<open>_pack\<close>:
  \<^verbatim>\<open>var pad = 512 - (data.length % 512); if (pad > 0) { parts.push(new Uint8Array(pad)); }\<close>.
\<close>

definition tar_step :: "nat \<Rightarrow> entry \<Rightarrow> byte list list \<Rightarrow> byte list list" where
  "tar_step secs f parts0 =
     (let header = getTarHeader (path f) (length (data f)) secs;
          parts1 = parts0 @ [header, data f];
          pad = 512 - (length (data f) mod 512)
      in if pad > 0 then parts1 @ [replicate pad 0] else parts1)"

text \<open>\<^verbatim>\<open>_pack\<close>; \<open>clock i\<close> is the clock, in seconds, when the header of entry \<open>i\<close> is built.\<close>

fun tar_loop :: "(nat \<Rightarrow> nat) \<Rightarrow> nat \<Rightarrow> entry list \<Rightarrow> byte list list \<Rightarrow> byte list list" where
  "tar_loop clock i [] parts0 = parts0"
| "tar_loop clock i (f # fs) parts0 = tar_loop clock (Suc i) fs (tar_step (clock i) f parts0)"

definition tar_pack :: "(nat \<Rightarrow> nat) \<Rightarrow> entry list \<Rightarrow> byte list list" where
  "tar_pack clock files = tar_loop clock 0 files []"

section \<open>Notions of the specification\<close>

text \<open>
  The comment as the specification wants it in the trailer: a string cut to its first
  65535 characters, anything else the empty comment.
\<close>

definition comment_spec :: "jsval \<Rightarrow> jsstring" where
  "comment_spec c = (case c of JString s \<Rightarrow> take 65535 s | _ \<Rightarrow> [])"

text \<open>The comment field of an End Of Central Directory record: its length at 20, its bytes from 22.\<close>

definition eocd_comment_length :: "byte list \<Rightarrow> byte list" where
  "eocd_comment_length eocd = take 2 (drop 20 eocd)"

definition eocd_comment :: "byte list \<Rightarrow> byte list" where
  "eocd_comment eocd = drop 22 eocd"

text \<open>The size fields of a local file header: four bytes at 18 and four at 22.\<close>

definition local_sizes :: "byte list \<Rightarrow> byte list" where
  "local_sizes h = take 8 (drop 18 h)"

section \<open>The archive as a function of the entries, the comment and the time stamps\<close>

text \<open>
  The archive of the specification: the entries region (a local file header and the data
  of every entry, in entry order), the central directory region (a header for every
  entry, in the same order) and the trailer. It is described here without a clock, as a
  function of the entries, the comment and the four date and time bytes stamped into the
  headers: \<open>stamps (2 * i)\<close> into the local file header of entry \<open>i\<close> and
  \<open>stamps (2 * i + 1)\<close> into its central directory header.
\<close>

definition stamped_local_header :: "byte list \<Rightarrow> entry \<Rightarrow> byte list" where
  "stamped_local_header stamp e =
     (let name = path_or_untitled (path e);
          checksum = numberToBytes (uint (bytesToCrc32 (data e))) 4;
          sz = numberToBytes (int (length (data e))) 4
      in [0x50, 0x4b, 0x03, 0x04, 0x0a, 0, 0, 0, 0, 0] @ stamp @ checksum @ sz @ sz
         @ numberToBytes (int (length name)) 2 @ [0, 0] @ stringToBytes name None)"

definition stamped_cd_header :: "byte list \<Rightarrow> nat \<Rightarrow> entry \<Rightarrow> byte list" where
  "stamped_cd_header stamp offset e =
     (let name = path_or_untitled (path e);
          checksum = numberToBytes (uint (bytesToCrc32 (data e))) 4;
          sz = numberToBytes (int (length (data e))) 4
      in [0x50, 0x4b, 0x01, 0x02, 0x1e, 0x03, 0x0a, 0, 0, 0, 0, 0] @ stamp @ checksum @ sz @ sz
         @ numberToBytes (int (length name)) 2 @ [0, 0, 0, 0, 0, 0, 0, 0] @ [0, 0, 0xa4, 0x81]
         @ numberToBytes (int offset) 4 @ stringToBytes name None)"

fun entries_region :: "(nat \<Rightarrow> byte list) \<Rightarrow> nat \<Rightarrow> entry list \<Rightarrow> byte list list" where
  "entries_region stamps i [] = []"
| "entries_region stamps i (e # es) =
     stamped_local_header (stamps (2 * i)) e # data e # entries_region stamps (Suc i) es"

fun directory_region :: "(nat \<Rightarrow> byte list) \<Rightarrow> nat \<Rightarrow> nat \<Rightarrow> entry list \<Rightarrow> byte list list" where
  "directory_region stamps i offset [] = []"
| "directory_region stamps i offset (e # es) =
     stamped_cd_header (stamps (2 * i + 1)) offset e
     # directory_region stamps (Suc i)
         (offset + length (stamped_local_header (stamps (2 * i)) e) + length (data e)) es"

definition archive :: "jsstring option \<Rightarrow> (nat \<Rightarrow> byte list) \<Rightarrow> entry list \<Rightarrow> error + byte list list" where
  "archive comment0 stamps es =
     (case validateComment comment0 of
        Inl err \<Rightarrow> Inl err
      | Inr comment \<Rightarrow>
          (let region = entries_region stamps 0 es;
               directory = directory_region stamps 0 0 es
           in Inr (region @ directory
                @ [getEOCDHeader (int (length es)) (int (length (concat directory)))
                     (int (length (concat region))) comment])))"
section \<open>Notions used in the proofs\<close>

text \<open>
  The chunks \<open>ps\<close> (a local header and a data chunk per entry) and the central directory
  headers \<open>cs\<close> agree: the offset field of every header encodes the number of bytes that
  precede the local header of its entry.
\<close>

definition offsets_inv :: "byte list list \<Rightarrow> byte list list \<Rightarrow> bool" where
  "offsets_inv ps cs =
     (length ps = 2 * length cs
      \<and> (\<forall>j < length cs.
            cd_offset_field (cs ! j) = numberToBytes (int (total_length (take (2 * j) ps))) 4))"

text \<open>The loop of \<^verbatim>\<open>_pack\<close> keeps that agreement, and its offset is the bytes written so far.\<close>

definition packing_inv :: "packing \<Rightarrow> bool" where
  "packing_inv st =
     (offsets_inv (pk_parts st) (pk_cd st) \<and> pk_offset st = total_length (pk_parts st))"

text \<open>Two chunks per central directory header.\<close>

definition parts_cd_inv :: "zipper \<Rightarrow> bool" where
  "parts_cd_inv z = (length (parts z) = 2 * length (cd z))"

text \<open>
  What the two loops of \<^verbatim>\<open>addStream\<close> feed to the checksum, chunk after chunk: for a
  chunk \<open>v\<close> read when the running index is \<open>i\<close>, the bytes of \<open>v\<close> from position \<open>i\<close> on,
  followed by zero bytes, as many as \<open>v\<close> is long.
\<close>

fun fed_bytes :: "byte list list \<Rightarrow> nat \<Rightarrow> byte list" where
  "fed_bytes [] i = []"
| "fed_bytes (v # rest) i =
     take (length v) (drop i v @ replicate (length v) 0) @ fed_bytes rest (i + length v)"

section \<open>Concrete inputs\<close>

text \<open>A reading of the clock, and a payload of two gibibytes of zero bytes.\<close>

definition leap_day :: jsdate where
  "leap_day = \<lparr>getFullYear = 2024, getMonth = 1, getDate = 29,
     getHours = 23, getMinutes = 59, getSeconds = 59\<rparr>"

definition big_payload :: "byte list" where
  "big_payload = replicate (2 ^ 31) 0"

text \<open>Three files added in turn, the first two of two gibibytes each.\<close>

definition big_calls :: "call list" where
  "big_calls =
     [AddFile leap_day (JString (js ''a'')) (JUint8Array big_payload),
      AddFile leap_day (JString (js ''b'')) (JUint8Array big_payload),
      AddFile leap_day (JString (js ''c'')) JNull]"

text \<open>Two small files added in turn.\<close>

definition small_calls :: "call list" where
  "small_calls =
     [AddFile leap_day (JString (js ''a'')) JNull,
      AddFile leap_day (JString (js ''b'')) JNull]"

definition small_entries :: "entry list" where
  "small_entries = [\<lparr>path = js ''a'', data = []\<rparr>, \<lparr>path = js ''b'', data = []\<rparr>]"

text \<open>A comment of 65536 characters.\<close>

definition long_comment :: jsstring where
  "long_comment = replicate 65536 97"


text \<open>A source that delivers 35 bytes in chunks of 10, 20 and 5 bytes.\<close>

definition three_chunks :: "byte list list" where
  "three_chunks =
     [[48, 49, 50, 51, 52, 53, 54, 55, 56, 57],
      [0, 0, 0, 0, 0, 0, 0, 0, 0, 0, 0, 0, 0, 0, 0, 0, 0, 0, 0, 0],
      [0, 0, 0, 0, 1]]"

text \<open>Another reading of the clock, and an archive of one empty file.\<close>

definition new_year :: jsdate where
  "new_year = \<lparr>getFullYear = 2025, getMonth = 0, getDate = 1,
     getHours = 0, getMinutes = 0, getSeconds = 0\<rparr>"

definition one_entry :: "entry list" where
  "one_entry = [\<lparr>path = js ''a'', data = []\<rparr>]"






text \<open>
  A time zone that skips the hour from one to two o'clock in the morning of 31 March
  2024, as that of London does, and has every other local time; in London
  \<^verbatim>\<open>new Date(0)\<close> reads one o'clock in the morning of 1 January 1970. A \<^verbatim>\<open>Date\<close> of that
  time zone on the day when the clocks go forward.
\<close>

definition london :: "jsdate \<Rightarrow> jsdate" where
  "london d =
     (if getFullYear d = 2024 \<and> getMonth d = 2 \<and> getDate d = 31 \<and> getHours d = 1
      then d\<lparr>getHours := 2\<rparr> else d)"

definition london_epoch :: jsdate where
  "london_epoch = \<lparr>getFullYear = 1970, getMonth = 0, getDate = 1,
     getHours = 1, getMinutes = 0, getSeconds = 0\<rparr>"

definition clocks_forward :: jsdate where
  "clocks_forward = \<lparr>getFullYear = 2024, getMonth = 2, getDate = 31,
     getHours = 23, getMinutes = 59, getSeconds = 59\<rparr>"
section \<open>Properties of the checksum engine\<close>

lemma crc_bits_8:
  "crc_bits 8 c =
    crc_shift (crc_shift (crc_shift (crc_shift (crc_shift (crc_shift (crc_shift (crc_shift c)))))))"
proof -
  have "(8::nat) = Suc (Suc (Suc (Suc (Suc (Suc (Suc (Suc 0)))))))"
    by simp
  then show ?thesis
    by (simp only: crc_bits.simps)
qed

lemma table_from_nth:
  "table_from w ts \<Longrightarrow> i < length ts \<Longrightarrow> ts ! i = crc_bits 8 (w + of_nat i)"
proof (induction ts arbitrary: w i)
  case Nil
  then show ?case by simp
next
  case (Cons t ts)
  show ?case
  proof (cases i)
    case 0
    with Cons.prems show ?thesis by simp
  next
    case (Suc j)
    with Cons.prems have "ts ! j = crc_bits 8 (w + 1 + of_nat j)"
      by (intro Cons.IH) simp_all
    with Suc show ?thesis by (simp add: add.assoc)
  qed
qed

lemma CRC_TABLE_generated: "table_from 0 CRC_TABLE"
  by (simp add: crc_bits_8 crc_shift_def CRC_TABLE_def)

lemma Zipper_CRC_TABLE_eq: "Zipper_CRC_TABLE = CRC_TABLE"
  by (simp add: Zipper_CRC_TABLE_def CRC_TABLE_def)

lemma length_CRC_TABLE: "length CRC_TABLE = 256"
  by (simp add: CRC_TABLE_def)

text \<open>A round is linear over exclusive or, hence so are eight of them.\<close>

lemma crc_shift_xor: "crc_shift (a XOR b) = crc_shift a XOR crc_shift b"
  by (cases "bit a 0"; cases "bit b 0")
     (simp_all add: crc_shift_def bit_xor_iff xor.assoc xor.commute xor.left_commute)

lemma crc_bits_xor: "crc_bits n (a XOR b) = crc_bits n a XOR crc_bits n b"
  by (induction n arbitrary: a b) (simp_all add: crc_shift_xor)

text \<open>On a word whose low \<open>n\<close> bits are clear, \<open>n\<close> rounds only shift.\<close>

lemma crc_bits_high: "take_bit n h = 0 \<Longrightarrow> crc_bits n h = drop_bit n h"
proof (induction n arbitrary: h)
  case 0
  then show ?case by simp
next
  case (Suc n)
  have clear: "\<not> bit h i" if "i < Suc n" for i
  proof -
    have "bit (take_bit (Suc n) h) i = bit h i"
      using that by (simp add: bit_take_bit_iff)
    with Suc.prems show ?thesis by simp
  qed
  from clear [of 0] have "\<not> bit h 0" by simp
  then have shift: "crc_shift h = drop_bit 1 h"
    by (simp add: crc_shift_def)
  have "take_bit n (drop_bit 1 h) = 0"
    by (rule bit_eqI) (simp add: bit_take_bit_iff bit_drop_bit_eq clear)
  from Suc.IH [OF this] shift show ?case by simp
qed

text \<open>The table lookup of the loop body is eight rounds of the bitwise definition.\<close>

lemma crc_update_bits: "crc_update CRC_TABLE c b = crc_bits 8 (c XOR ucast b)"
proof -
  define x where "x = c XOR ucast b"
  define lo where "lo = x AND 0xFF"
  define hi where "hi = push_bit 8 (drop_bit 8 x)"
  have lo: "lo = take_bit 8 x"
    by (simp add: lo_def take_bit_eq_mask mask_eq_exp_minus_1)
  have x: "x = hi XOR lo"
    unfolding lo hi_def by (rule bit_eqI) (auto simp add: bit_simps)
  have "take_bit 8 hi = 0"
    by (simp add: hi_def take_bit_push_bit)
  then have "crc_bits 8 hi = drop_bit 8 hi"
    by (rule crc_bits_high)
  also have "drop_bit 8 hi = drop_bit 8 x"
    unfolding hi_def by (rule bit_eqI) (auto simp add: bit_simps dest: bit_imp_le_length)
  finally have hi: "crc_bits 8 hi = drop_bit 8 x" .
  have "drop_bit 8 (ucast b :: u32) = 0"
    by (rule bit_eqI) (auto simp add: bit_simps dest: bit_imp_le_length)
  then have d: "drop_bit 8 x = drop_bit 8 c"
    by (simp add: x_def)
  have "unat lo < 256"
    unfolding lo using take_bit_nat_less_exp [of 8 "unat x"]
    by (simp add: unsigned_take_bit_eq)
  then have "CRC_TABLE ! unat lo = crc_bits 8 (0 + of_nat (unat lo))"
    by (intro table_from_nth CRC_TABLE_generated) (simp add: length_CRC_TABLE)
  then have t: "CRC_TABLE ! unat lo = crc_bits 8 lo"
    by simp
  have "crc_update CRC_TABLE c b = drop_bit 8 c XOR CRC_TABLE ! unat lo"
    by (simp add: crc_update_def lo_def x_def)
  also have "\<dots> = crc_bits 8 hi XOR crc_bits 8 lo"
    by (simp only: t hi d)
  also have "\<dots> = crc_bits 8 x"
    by (simp only: crc_bits_xor [symmetric] x [symmetric])
  finally show ?thesis
    by (simp only: x_def)
qed

lemma foldl_crc_update:
  "foldl (crc_update CRC_TABLE) c bytes = foldl (\<lambda>c b. crc_bits 8 (c XOR ucast b)) c bytes"
  by (induction bytes arbitrary: c) (simp_all add: crc_update_bits)

lemma bytesToCrc32_spec: "bytesToCrc32 bytes = crc32_spec bytes"
  by (simp add: bytesToCrc32_def crc32_spec_def foldl_crc_update not_eq_complement
      flip: minus_1_eq_mask) 

lemma crc32_spec_check: "crc32_spec (ascii ''123456789'') = 0xCBF43926"
  by (simp add: crc32_spec_def ascii_def crc_bits_8 crc_shift_def)

text \<open>
  Claim C1. For every byte sequence, \<^verbatim>\<open>bytesToCrc32\<close> (in both source files) returns the
  reflected CRC-32 of PKZIP: polynomial \<^verbatim>\<open>0xEDB88320\<close>, accumulator all ones, result
  complemented. The checksum of the empty sequence is 0 and the checksum of the ASCII
  bytes of \<^verbatim>\<open>123456789\<close> is \<^verbatim>\<open>0xCBF43926\<close>.
\<close>

theorem bytesToCrc32_canonical:
  "bytesToCrc32 bytes = crc32_spec bytes
   \<and> Zipper_bytesToCrc32 bytes = crc32_spec bytes
   \<and> bytesToCrc32 [] = 0
   \<and> Zipper_bytesToCrc32 [] = 0
   \<and> bytesToCrc32 (ascii ''123456789'') = 0xCBF43926
   \<and> Zipper_bytesToCrc32 (ascii ''123456789'') = 0xCBF43926"
proof -
  have z: "Zipper_bytesToCrc32 bs = bytesToCrc32 bs" for bs
    by (simp add: Zipper_bytesToCrc32_def bytesToCrc32_def Zipper_CRC_TABLE_eq)
  have e: "crc32_spec [] = 0"
    by (simp add: crc32_spec_def)
  show ?thesis
    by (simp only: z e bytesToCrc32_spec crc32_spec_check simp_thms)
qed

section \<open>Properties of the codec\<close>

text \<open>On numbers that fit 31 bits the operators of JavaScript are those of arithmetic.\<close>

lemma toInt32_id: "- (2 ^ 31) \<le> n \<Longrightarrow> n < 2 ^ 31 \<Longrightarrow> toInt32 n = n"
  unfolding toInt32_def by (simp add: signed_take_bit_int_eq_self)

lemma toInt32_nonneg: "0 \<le> n \<Longrightarrow> n < 2 ^ 31 \<Longrightarrow> toInt32 n = n"
  by (rule toInt32_id) simp_all

lemma js_and_mask:
  assumes "0 \<le> a" "a < 2 ^ 31" "k \<le> 31"
  shows "js_and a (mask k) = a mod 2 ^ k"
proof -
  have "(mask k :: int) < 2 ^ k"
    by (simp add: mask_eq_exp_minus_1)
  also have "(2::int) ^ k \<le> 2 ^ 31"
    using assms(3) by (intro power_increasing) simp_all
  finally have "toInt32 (mask k) = mask k"
    by (intro toInt32_nonneg) simp_all
  with assms show ?thesis
    by (simp add: js_and_def toInt32_nonneg flip: take_bit_eq_mask take_bit_eq_mod)
qed

lemma js_shl_mult:
  assumes "0 \<le> a" "a * 2 ^ k < 2 ^ 31" "k < 32"
  shows "js_shl a k = a * 2 ^ k"
proof -
  have "a * 1 \<le> a * 2 ^ k"
    using assms(1) by (intro mult_left_mono) simp_all
  with assms have a: "a < 2 ^ 31"
    by simp
  have "toInt32 (a * 2 ^ k) = a * 2 ^ k"
    using assms by (intro toInt32_nonneg) simp_all
  with assms a show ?thesis
    by (simp add: js_shl_def toInt32_nonneg push_bit_eq_mult)
qed

lemma js_sar_div: "0 \<le> a \<Longrightarrow> a < 2 ^ 31 \<Longrightarrow> k < 32 \<Longrightarrow> js_sar a k = a div 2 ^ k"
  by (simp add: js_sar_def toInt32_nonneg drop_bit_eq_div)

lemma js_and_low:
  assumes "0 \<le> a" "a < 2 ^ 31"
  shows "js_and a 255 = a mod 256" "js_and a 127 = a mod 128" "js_and a 63 = a mod 64"
    "js_and a 31 = a mod 32" "js_and a 15 = a mod 16"
  using js_and_mask [OF assms, of 8] js_and_mask [OF assms, of 7] js_and_mask [OF assms, of 6]
    js_and_mask [OF assms, of 5] js_and_mask [OF assms, of 4]
  by (simp_all add: mask_eq_exp_minus_1)

lemma numberToBytes_2:
  "numberToBytes n 2 = [word_of_int (js_and n 0xFF), word_of_int (js_and (js_sar n 8) 0xFF)]"
  by (simp add: numeral_2_eq_2)

lemma bytesToNumber_numberToBytes_2:
  assumes "0 \<le> n" "n < 65536"
  shows "Zipper_bytesToNumber (numberToBytes n 2) = n"
proof -
  have lo: "js_and n 0xFF = n mod 256"
    using assms by (simp add: js_and_low)
  have "js_sar n 8 = n div 256"
    using assms by (simp add: js_sar_div)
  moreover have "n div 256 < 256" "0 \<le> n div 256"
    using assms by simp_all
  ultimately have hi: "js_and (js_sar n 8) 0xFF = n div 256"
    by (simp add: js_and_low)
  have u: "js_and (uint (word_of_int x :: byte)) 0xFF = x mod 256" for x
    by (simp add: js_and_low uint_word_of_int take_bit_eq_mod)
  have "Zipper_bytesToNumber (numberToBytes n 2) = js_shl (n div 256) 8 + n mod 256"
    using \<open>n div 256 < 256\<close> \<open>0 \<le> n div 256\<close>
    by (simp add: numberToBytes_2 Zipper_bytesToNumber_def lo hi u js_shl_def toInt32_def)
  also have "js_shl (n div 256) 8 = n div 256 * 2 ^ 8"
    using assms by (intro js_shl_mult) simp_all
  finally show ?thesis by simp
qed


text \<open>Taking a number apart into a low field and the rest.\<close>

lemma split_field:
  fixes a c :: int
  assumes "0 \<le> c" "c < C"
  shows "(a * C + c) mod C = c" "(a * C + c) div C = a"
  using assms by simp_all

text \<open>The two decoders hand the setters the fields that were packed.\<close>

lemma date_round_trip:
  assumes "1980 \<le> getFullYear d" "getFullYear d \<le> 2107"
    and "0 \<le> getMonth d" "getMonth d \<le> 11" "1 \<le> getDate d" "getDate d \<le> 31"
  shows "Zipper_bytesToDate zone epoch (Zipper_dateToBytes d) =
    setFullYear zone epoch (getFullYear d) (getMonth d) (getDate d)"
proof -
  define y where "y = getFullYear d - 1980"
  define m where "m = getMonth d + 1"
  define dd where "dd = getDate d"
  define n where "n = y * 512 + m * 32 + dd"
  have b: "0 \<le> y" "y \<le> 127" "1 \<le> m" "m \<le> 12" "1 \<le> dd" "dd \<le> 31"
    using assms by (simp_all add: y_def m_def dd_def)
  have sh: "js_shl y 9 = y * 512" "js_shl m 5 = m * 32"
    using b by (simp_all add: js_shl_mult)
  have n: "0 \<le> n" "n < 65536"
    using b by (simp_all add: n_def)
  have enc: "Zipper_dateToBytes d = numberToBytes n 2"
    by (simp add: Zipper_dateToBytes_def Let_def sh [unfolded y_def m_def] n_def y_def m_def dd_def)
  have s5: "js_sar n 5 = n div 32" and s9: "js_sar n 9 = n div 512"
    using n by (simp_all add: js_sar_div)
  have n1: "n = (y * 16 + m) * 32 + dd"
    by (simp add: n_def)
  have d32: "n div 32 = y * 16 + m"
    unfolding n1 using b by (intro split_field) simp_all
  have "n div 512 = n div 32 div 16"
    by (simp add: zdiv_zmult2_eq [symmetric])
  also have "\<dots> = y"
    unfolding d32 using b by (intro split_field) simp_all
  finally have d512: "n div 512 = y" .
  have f: "n mod 32 = dd" "(n div 32) mod 16 = m" "(n div 512) mod 128 = y"
  proof -
    show "n mod 32 = dd"
      unfolding n1 using b by (intro split_field) simp_all
    show "(n div 32) mod 16 = m"
      unfolding d32 using b by (intro split_field) simp_all
    show "(n div 512) mod 128 = y"
      unfolding d512 using b by simp
  qed
  have r: "0 \<le> n div 32" "n div 32 < 2 ^ 31" "0 \<le> n div 512" "n div 512 < 2 ^ 31"
    using n by simp_all
  have dec: "js_and n 31 = dd" "js_and (js_sar n 5) 15 = m" "js_and (js_sar n 9) 127 = y"
    using n r f by (simp_all add: s5 s9 js_and_low)
  show ?thesis
    by (simp add: Zipper_bytesToDate_def enc bytesToNumber_numberToBytes_2 [OF n] dec Let_def
        y_def m_def dd_def)
qed

lemma time_round_trip:
  assumes "0 \<le> getHours d" "getHours d \<le> 23" "0 \<le> getMinutes d" "getMinutes d \<le> 59"
    and "0 \<le> getSeconds d" "getSeconds d \<le> 59"
  shows "Zipper_bytesToTime zone epoch (Zipper_timeToBytes d) =
    setSeconds zone (setMinutes zone (setHours zone epoch (getHours d)) (getMinutes d))
      (2 * (getSeconds d div 2))"
proof -
  define h where "h = getHours d"
  define m where "m = getMinutes d"
  define s where "s = getSeconds d div 2"
  define n where "n = h * 2048 + m * 32 + s"
  have bs: "0 \<le> s" "s \<le> 29"
    unfolding s_def using assms(5,6) by linarith+
  have b: "0 \<le> h" "h \<le> 23" "0 \<le> m" "m \<le> 59" "0 \<le> s" "s \<le> 29"
    using assms bs by (simp_all add: h_def m_def)
  have sh: "js_shl h 11 = h * 2048" "js_shl m 5 = m * 32"
    using b by (simp_all add: js_shl_mult)
  have n: "0 \<le> n" "n < 65536"
    using b by (simp_all add: n_def)
  have enc: "Zipper_timeToBytes d = numberToBytes n 2"
    by (simp add: Zipper_timeToBytes_def Let_def sh [unfolded h_def m_def] n_def h_def m_def s_def)
  have s5: "js_sar n 5 = n div 32" and s11: "js_sar n 11 = n div 2048"
    using n by (simp_all add: js_sar_div)
  have n1: "n = (h * 64 + m) * 32 + s"
    by (simp add: n_def)
  have d32: "n div 32 = h * 64 + m"
    unfolding n1 using b by (intro split_field) simp_all
  have "n div 2048 = n div 32 div 64"
    by (simp add: zdiv_zmult2_eq [symmetric])
  also have "\<dots> = h"
    unfolding d32 using b by (intro split_field) simp_all
  finally have d2048: "n div 2048 = h" .
  have f: "n mod 32 = s" "(n div 32) mod 64 = m" "(n div 2048) mod 32 = h"
  proof -
    show "n mod 32 = s"
      unfolding n1 using b by (intro split_field) simp_all
    show "(n div 32) mod 64 = m"
      unfolding d32 using b by (intro split_field) simp_all
    show "(n div 2048) mod 32 = h"
      unfolding d2048 using b by simp
  qed
  have r: "0 \<le> n div 32" "n div 32 < 2 ^ 31" "0 \<le> n div 2048" "n div 2048 < 2 ^ 31"
    using n by simp_all
  have dec: "js_and n 31 = s" "js_and (js_sar n 5) 63 = m" "js_and (js_sar n 11) 31 = h"
    using n r f by (simp_all add: s5 s11 js_and_low)
  show ?thesis
    by (simp add: Zipper_bytesToTime_def enc bytesToNumber_numberToBytes_2 [OF n] dec Let_def
        h_def m_def s_def mult.commute)
qed

text \<open>Where the time zone has the local times asked for, the setters store their arguments.\<close>

lemma setters_has_time:
  assumes "has_time zone (epoch\<lparr>getHours := h\<rparr>)"
    and "has_time zone (epoch\<lparr>getHours := h, getMinutes := m\<rparr>)"
    and "has_time zone (epoch\<lparr>getHours := h, getMinutes := m, getSeconds := s\<rparr>)"
  shows "setSeconds zone (setMinutes zone (setHours zone epoch h) m) s =
    epoch\<lparr>getHours := h, getMinutes := m, getSeconds := s\<rparr>"
  using assms by (simp add: setHours_def setMinutes_def setSeconds_def has_time_def)

text \<open>
  \<^verbatim>\<open>numberToBytes\<close> writes the low bytes of its argument, least significant first, whatever
  the size of the number: the field holds the number modulo \<open>2^32\<close> (or \<open>2^16\<close>).
\<close>

lemma toInt32_drop_bit: "toInt32 (drop_bit k (toInt32 n)) = drop_bit k (toInt32 n)"
  unfolding toInt32_def
  by (rule bit_eqI) (auto simp add: bit_signed_take_bit_iff bit_drop_bit_eq min_def)

lemma js_sar_js_sar: "js_sar (js_sar n 8) 8 = drop_bit 16 (toInt32 n)"
  "js_sar (js_sar (js_sar n 8) 8) 8 = drop_bit 24 (toInt32 n)"
  by (simp_all add: js_sar_def toInt32_drop_bit)

lemma byte_of_js_and: "(word_of_int (js_and a 0xFF) :: byte) = word_of_int (toInt32 a)"
proof -
  have "toInt32 255 = 255"
    by (simp add: toInt32_def)
  moreover have "(255::int) = mask 8"
    by (simp add: mask_eq_exp_minus_1)
  ultimately have "js_and a 0xFF = toInt32 a AND mask 8"
    by (simp add: js_and_def)
  then show ?thesis
    by (simp only: flip: take_bit_eq_mask) (rule bit_word_eqI, simp add: bit_simps)
qed

lemma byte_of_toInt32:
  "k \<le> 24 \<Longrightarrow> (word_of_int (drop_bit k (toInt32 n)) :: byte) = word_of_int (drop_bit k n)"
proof (rule bit_word_eqI)
  fix i
  assume k: "k \<le> 24" and "i < LENGTH(8)"
  then have "k + i \<le> 31"
    by simp
  then have "min 31 (k + i) = k + i"
    by simp
  then show "bit (word_of_int (drop_bit k (toInt32 n)) :: byte) i = bit (word_of_int (drop_bit k n) :: byte) i"
    by (simp add: toInt32_def bit_word_of_int_iff bit_drop_bit_eq bit_signed_take_bit_iff)
qed

lemma numberToBytes_4:
  "numberToBytes n 4 =
     [word_of_int n, word_of_int (drop_bit 8 n), word_of_int (drop_bit 16 n),
      word_of_int (drop_bit 24 n)]"
proof -
  have "(4::nat) = Suc (Suc (Suc (Suc 0)))"
    by simp
  then have "numberToBytes n 4 =
     [word_of_int (js_and n 0xFF), word_of_int (js_and (js_sar n 8) 0xFF),
      word_of_int (js_and (js_sar (js_sar n 8) 8) 0xFF),
      word_of_int (js_and (js_sar (js_sar (js_sar n 8) 8) 8) 0xFF)]"
    by (simp only: numberToBytes.simps)
  also have "\<dots> = [word_of_int (drop_bit 0 (toInt32 n)), word_of_int (drop_bit 8 (toInt32 n)),
      word_of_int (drop_bit 16 (toInt32 n)), word_of_int (drop_bit 24 (toInt32 n))]"
    by (simp add: byte_of_js_and js_sar_js_sar) (simp add: js_sar_def toInt32_drop_bit)
  also have "\<dots> = [word_of_int (drop_bit 0 n), word_of_int (drop_bit 8 n),
      word_of_int (drop_bit 16 n), word_of_int (drop_bit 24 n)]"
    by (simp only: byte_of_toInt32)
  finally show ?thesis
    by simp
qed

lemma numberToBytes_2_bytes:
  "numberToBytes n 2 = [word_of_int n, word_of_int (drop_bit 8 n)]"
proof -
  have "numberToBytes n 2 =
     [word_of_int (js_and n 0xFF), word_of_int (js_and (js_sar n 8) 0xFF)]"
    by (simp add: numeral_2_eq_2)
  also have "\<dots> = [word_of_int (drop_bit 0 (toInt32 n)), word_of_int (drop_bit 8 (toInt32 n))]"
    by (simp add: byte_of_js_and) (simp add: js_sar_def toInt32_drop_bit)
  also have "\<dots> = [word_of_int (drop_bit 0 n), word_of_int (drop_bit 8 n)]"
    by (simp only: byte_of_toInt32)
  finally show ?thesis
    by simp
qed

lemma length_numberToBytes [simp]: "length (numberToBytes n len) = len"
  by (induction len arbitrary: n) simp_all

lemma unat_byte_of_int: "unat (word_of_int k :: byte) = nat (k mod 256)"
  by (simp add: unat_eq_nat_uint uint_word_of_int_eq take_bit_eq_mod)

lemma le_value_numberToBytes_4: "le_value (numberToBytes n 4) = nat (n mod 2 ^ 32)"
proof -
  have s: "n mod 2 ^ 32 =
    n mod 256 + 256 * (n div 256 mod 256 + 256 * (n div 65536 mod 256 + 256 * (n div 16777216 mod 256)))"
  proof -
    have "n mod 2 ^ 32 = n mod (256 * (256 * (256 * 256)))"
      by simp
    also have "\<dots> = 256 * (n div 256 mod (256 * (256 * 256))) + n mod 256"
      by (rule zmod_zmult2_eq) simp
    also have "n div 256 mod (256 * (256 * 256)) =
        256 * (n div 256 div 256 mod (256 * 256)) + n div 256 mod 256"
      by (rule zmod_zmult2_eq) simp
    also have "n div 256 div 256 mod (256 * 256) =
        256 * (n div 256 div 256 div 256 mod 256) + n div 256 div 256 mod 256"
      by (rule zmod_zmult2_eq) simp
    finally have "n mod 2 ^ 32 =
        256 * (256 * (256 * (n div 256 div 256 div 256 mod 256) + n div 256 div 256 mod 256)
          + n div 256 mod 256) + n mod 256" .
    moreover have "n div (256 * 256) = n div 256 div 256"
      by (rule zdiv_zmult2_eq) simp
    moreover have "n div (256 * 256 * 256) = n div (256 * 256) div 256"
      by (rule zdiv_zmult2_eq) simp
    ultimately show ?thesis
      by simp
  qed
  show ?thesis
    unfolding s numberToBytes_4
    by (simp add: unat_byte_of_int drop_bit_eq_div nat_add_distrib nat_mult_distrib)
qed

lemma le_value_numberToBytes_2: "le_value (numberToBytes n 2) = nat (n mod 2 ^ 16)"
proof -
  have "n mod 2 ^ 16 = n mod (256 * 256)"
    by simp
  also have "\<dots> = 256 * (n div 256 mod 256) + n mod 256"
    by (rule zmod_zmult2_eq) simp
  finally show ?thesis
    unfolding numberToBytes_2_bytes
    by (simp add: unat_byte_of_int drop_bit_eq_div nat_add_distrib nat_mult_distrib)
qed

lemma le_value_numberToBytes_4_nat: "le_value (numberToBytes (int n) 4) = n mod 2 ^ 32"
proof -
  have "int n mod 2 ^ 32 = int (n mod 2 ^ 32)"
    by (simp add: zmod_int)
  then show ?thesis
    by (simp only: le_value_numberToBytes_4 nat_int)
qed

text \<open>
  Claim C5. Take a value with year 1980 to 2107, month 1 to 12 (0 to 11 as \<^verbatim>\<open>getMonth\<close>
  counts), day 1 to 31, hour 0 to 23, minute 0 to 59 and second 0 to 59, pack it with
  \<^verbatim>\<open>Zipper.dateToBytes\<close> and \<^verbatim>\<open>Zipper.timeToBytes\<close> and decode the two fields with
  \<^verbatim>\<open>Zipper.bytesToDate\<close> and \<^verbatim>\<open>Zipper.bytesToTime\<close>. In every time zone the decoders set on
  \<^verbatim>\<open>new Date(0)\<close> the same year, month and day, and the same hour and minute with the
  second rounded down to even. The \<^verbatim>\<open>Date\<close> decoded from the date field therefore reads
  the same year, month and day exactly when the value is a day of the calendar that the
  time zone has (at the time of day of \<^verbatim>\<open>new Date(0)\<close>), and the \<^verbatim>\<open>Date\<close> decoded from the
  time field reads the same hour and minute and the second rounded down to even when the
  time zone has these times of day on the day of \<^verbatim>\<open>new Date(0)\<close>.
\<close>

theorem dos_date_time_round_trip:
  assumes "1980 \<le> getFullYear d" "getFullYear d \<le> 2107"
    and "0 \<le> getMonth d" "getMonth d \<le> 11" "1 \<le> getDate d" "getDate d \<le> 31"
    and "0 \<le> getHours d" "getHours d \<le> 23" "0 \<le> getMinutes d" "getMinutes d \<le> 59"
    and "0 \<le> getSeconds d" "getSeconds d \<le> 59"
  shows "Zipper_bytesToDate zone epoch (Zipper_dateToBytes d) =
        setFullYear zone epoch (getFullYear d) (getMonth d) (getDate d)
    \<and> Zipper_bytesToTime zone epoch (Zipper_timeToBytes d) =
        setSeconds zone (setMinutes zone (setHours zone epoch (getHours d)) (getMinutes d))
          (2 * (getSeconds d div 2))
    \<and> (same_day (Zipper_bytesToDate zone epoch (Zipper_dateToBytes d)) d \<longleftrightarrow>
        has_day zone
          (epoch\<lparr>getFullYear := getFullYear d, getMonth := getMonth d, getDate := getDate d\<rparr>))
    \<and> (has_time zone (epoch\<lparr>getHours := getHours d\<rparr>)
        \<and> has_time zone (epoch\<lparr>getHours := getHours d, getMinutes := getMinutes d\<rparr>)
        \<and> has_time zone (epoch\<lparr>getHours := getHours d, getMinutes := getMinutes d,
              getSeconds := 2 * (getSeconds d div 2)\<rparr>) \<longrightarrow>
        Zipper_bytesToTime zone epoch (Zipper_timeToBytes d) =
          epoch\<lparr>getHours := getHours d, getMinutes := getMinutes d,
            getSeconds := 2 * (getSeconds d div 2)\<rparr>)"
proof -
  have date: "Zipper_bytesToDate zone epoch (Zipper_dateToBytes d) =
      setFullYear zone epoch (getFullYear d) (getMonth d) (getDate d)"
    using assms(1-6) by (rule date_round_trip)
  have time: "Zipper_bytesToTime zone epoch (Zipper_timeToBytes d) =
      setSeconds zone (setMinutes zone (setHours zone epoch (getHours d)) (getMinutes d))
        (2 * (getSeconds d div 2))"
    using assms(7-12) by (rule time_round_trip)
  have "same_day (Zipper_bytesToDate zone epoch (Zipper_dateToBytes d)) d \<longleftrightarrow>
      has_day zone
        (epoch\<lparr>getFullYear := getFullYear d, getMonth := getMonth d, getDate := getDate d\<rparr>)"
    unfolding date by (simp add: setFullYear_def has_day_def same_day_def)
  moreover have "Zipper_bytesToTime zone epoch (Zipper_timeToBytes d) =
      epoch\<lparr>getHours := getHours d, getMinutes := getMinutes d,
        getSeconds := 2 * (getSeconds d div 2)\<rparr>"
    if "has_time zone (epoch\<lparr>getHours := getHours d\<rparr>)"
      "has_time zone (epoch\<lparr>getHours := getHours d, getMinutes := getMinutes d\<rparr>)"
      "has_time zone (epoch\<lparr>getHours := getHours d, getMinutes := getMinutes d,
         getSeconds := 2 * (getSeconds d div 2)\<rparr>)"
    unfolding time using that by (rule setters_has_time)
  ultimately show ?thesis
    using date time by blast
qed

text \<open>
  The last day of March 2024 read in London, where \<^verbatim>\<open>new Date(0)\<close> is one o'clock in the
  morning and that hour is skipped on that day: the \<^verbatim>\<open>Date\<close> decoded from the date field
  is of the same day, at two o'clock.
\<close>

theorem dos_date_time_round_trip_witness:
  "has_day london (london_epoch\<lparr>getFullYear := 2024, getMonth := 2, getDate := 31\<rparr>)
   \<and> has_time london (london_epoch\<lparr>getHours := 23\<rparr>)
   \<and> has_time london (london_epoch\<lparr>getHours := 23, getMinutes := 59\<rparr>)
   \<and> has_time london (london_epoch\<lparr>getHours := 23, getMinutes := 59, getSeconds := 58\<rparr>)
   \<and> Zipper_bytesToDate london london_epoch (Zipper_dateToBytes clocks_forward) =
       \<lparr>getFullYear = 2024, getMonth = 2, getDate = 31,
         getHours = 2, getMinutes = 0, getSeconds = 0\<rparr>
   \<and> same_day (Zipper_bytesToDate london london_epoch (Zipper_dateToBytes clocks_forward))
       clocks_forward
   \<and> Zipper_bytesToTime london london_epoch (Zipper_timeToBytes clocks_forward) =
       \<lparr>getFullYear = 1970, getMonth = 0, getDate = 1,
         getHours = 23, getMinutes = 59, getSeconds = 58\<rparr>"
  using dos_date_time_round_trip [of clocks_forward london london_epoch]
  by (simp add: clocks_forward_def london_def london_epoch_def has_day_def has_time_def
      same_day_def setFullYear_def setHours_def setMinutes_def setSeconds_def)
section \<open>Offsets\<close>

lemma offsets_inv_Nil: "offsets_inv [] []"
  by (simp add: offsets_inv_def)

lemma offsets_inv_snoc:
  assumes "offsets_inv ps cs" "cd_offset_field c = numberToBytes (int (total_length ps)) 4"
  shows "offsets_inv (ps @ [lh, d]) (cs @ [c])"
  unfolding offsets_inv_def
proof (intro conjI allI impI)
  show "length (ps @ [lh, d]) = 2 * length (cs @ [c])"
    using assms(1) by (simp add: offsets_inv_def)
next
  fix j
  assume j: "j < length (cs @ [c])"
  have len: "length ps = 2 * length cs"
    using assms(1) by (simp add: offsets_inv_def)
  show "cd_offset_field ((cs @ [c]) ! j) =
      numberToBytes (int (total_length (take (2 * j) (ps @ [lh, d])))) 4"
  proof (cases "j < length cs")
    case True
    then have "cd_offset_field (cs ! j) = numberToBytes (int (total_length (take (2 * j) ps))) 4"
      using assms(1) by (simp add: offsets_inv_def)
    with True len show ?thesis
      by (simp add: nth_append)
  next
    case False
    with j have "j = length cs"
      by simp
    with len assms(2) show ?thesis
      by simp
  qed
qed

lemma offsets_inv_butlast:
  assumes "offsets_inv ps cs"
  shows "offsets_inv (butlast (butlast ps)) (butlast cs)"
  unfolding offsets_inv_def
proof (intro conjI allI impI)
  have len: "length ps = 2 * length cs"
    using assms by (simp add: offsets_inv_def)
  then show "length (butlast (butlast ps)) = 2 * length (butlast cs)"
    by simp
  fix j
  assume j: "j < length (butlast cs)"
  then have j': "j < length cs" "2 * j \<le> length ps - 2"
    using len by simp_all
  then have "take (2 * j) (butlast (butlast ps)) = take (2 * j) ps"
    by (simp add: take_butlast butlast_conv_take)
  moreover have "butlast cs ! j = cs ! j"
    using j by (simp add: nth_butlast)
  moreover have "cd_offset_field (cs ! j) = numberToBytes (int (total_length (take (2 * j) ps))) 4"
    using assms j' by (simp add: offsets_inv_def)
  ultimately show "cd_offset_field (butlast cs ! j) =
      numberToBytes (int (total_length (take (2 * j) (butlast (butlast ps))))) 4"
    by simp
qed

lemma foldl_total: "foldl (\<lambda>total part. total + length part) a ps = a + sum_list (map length ps)"
  by (induction ps arbitrary: a) simp_all

lemma total_length_sum_list: "total_length ps = sum_list (map length ps)"
  by (simp add: total_length_def foldl_total)

lemma total_length_append [simp]: "total_length (ps @ qs) = total_length ps + total_length qs"
  by (simp add: total_length_sum_list)

lemma total_length_simps [simp]: "total_length [] = 0" "total_length (p # ps) = length p + total_length ps"
  by (simp_all add: total_length_sum_list)

lemma total_length_pairs:
  "2 * i \<le> length ps \<Longrightarrow>
   total_length (take (2 * i) ps) = (\<Sum>j<i. length (ps ! (2 * j)) + length (ps ! (2 * j + 1)))"
proof (induction i)
  case 0
  then show ?case by simp
next
  case (Suc i)
  then have "take (2 * Suc i) ps = take (2 * i) ps @ [ps ! (2 * i), ps ! (2 * i + 1)]"
    by (simp add: take_Suc_conv_app_nth)
  with Suc show ?case
    by simp
qed

lemma length_Zipper_timeToBytes [simp]: "length (Zipper_timeToBytes d) = 2"
  by (simp add: Zipper_timeToBytes_def Let_def)

lemma length_Zipper_dateToBytes [simp]: "length (Zipper_dateToBytes d) = 2"
  by (simp add: Zipper_dateToBytes_def Let_def)

lemma length_dateToBytes [simp]: "length (dateToBytes d) = 4"
  by (simp add: dateToBytes_def Let_def)

lemma cd_offset_field_entry_cdHeader:
  "cd_offset_field (entry_cdHeader date name bytes isFolder off) = numberToBytes (int off) 4"
  by (simp add: cd_offset_field_def entry_cdHeader_def cdHeader_def Let_def)

lemma cd_offset_field_getCentralDirectoryHeader:
  "cd_offset_field (getCentralDirectoryHeader checksum sz p off date) = numberToBytes off 4"
  by (simp add: cd_offset_field_def getCentralDirectoryHeader_def Let_def)

lemma length_getLocalFileHeader:
  "length (getLocalFileHeader checksum sz p date) = 30 + length (path_or_untitled p)"
  by (simp add: getLocalFileHeader_def Let_def stringToBytes_def)

text \<open>The class of \<^verbatim>\<open>src/src/zip.js\<close>.\<close>

lemma offsets_inv_addEntry:
  assumes "offsets_inv (parts z) (cd z)"
  shows "offsets_inv (parts (Zipper_addEntry z date filename d isFolder))
           (cd (Zipper_addEntry z date filename d isFolder))"
  using assms
  by (auto simp add: Zipper_addEntry_def offsets_inv_snoc cd_offset_field_entry_cdHeader
      split: option.split)

lemma offsets_inv_perform:
  "offsets_inv (parts z) (cd z) \<Longrightarrow> offsets_inv (parts (perform z c)) (cd (perform z c))"
  by (cases c) (simp_all add: addFile_def addFolder_def pop_def offsets_inv_addEntry
      offsets_inv_butlast)

lemma offsets_inv_foldl:
  "offsets_inv (parts z) (cd z) \<Longrightarrow>
   offsets_inv (parts (foldl perform z calls)) (cd (foldl perform z calls))"
  by (induction calls arbitrary: z) (simp_all add: offsets_inv_perform)

lemma offsets_inv_run: "offsets_inv (parts (run calls)) (cd (run calls))"
  unfolding run_def by (rule offsets_inv_foldl) (simp add: Zipper_new_def offsets_inv_Nil)

text \<open>\<^verbatim>\<open>_pack\<close> of \<^verbatim>\<open>src/zip.js\<close>.\<close>

lemma packing_inv_step: "packing_inv st \<Longrightarrow> packing_inv (pack_step clock i e st)"
  by (simp add: packing_inv_def pack_step_def Let_def offsets_inv_snoc
      cd_offset_field_getCentralDirectoryHeader)

lemma packing_inv_loop: "packing_inv st \<Longrightarrow> packing_inv (pack_loop clock i es st)"
  by (induction es arbitrary: i st) (simp_all add: packing_inv_step)

lemma length_pk_cd_loop:
  "length (pk_cd (pack_loop clock i es st)) = length (pk_cd st) + length es"
  by (induction es arbitrary: i st) (simp_all add: pack_step_def Let_def)

lemma pack_chunks:
  assumes "pack comment0 clock es = Inr out"
  obtains ps cs eocd where "out = ps @ cs @ [eocd]" "offsets_inv ps cs" "length cs = length es"
proof -
  define st where
    "st = pack_loop clock 0 es \<lparr>pk_parts = [], pk_cd = [], pk_offset = 0, pk_cdSize = 0\<rparr>"
  have "packing_inv st"
    unfolding st_def by (rule packing_inv_loop) (simp add: packing_inv_def offsets_inv_Nil)
  then have "offsets_inv (pk_parts st) (pk_cd st)"
    by (simp add: packing_inv_def)
  moreover have "length (pk_cd st) = length es"
    by (simp add: st_def length_pk_cd_loop)
  moreover from assms obtain comment where
    "out = pk_parts st @ pk_cd st @ [getEOCDHeader (int (length (pk_cd st))) (int (pk_cdSize st))
        (int (pk_offset st)) comment]"
    by (auto simp add: pack_def Let_def st_def split: sum.splits)
  ultimately show ?thesis
    using that by blast
qed

lemma chunks_offset:
  assumes "offsets_inv ps cs" "i < length cs"
  shows "cd_offset_field ((ps @ cs @ rest) ! (2 * length cs + i)) =
      numberToBytes (int (\<Sum>j<i. length ((ps @ cs @ rest) ! (2 * j))
        + length ((ps @ cs @ rest) ! (2 * j + 1)))) 4"
proof -
  have len: "length ps = 2 * length cs"
    using assms(1) by (simp add: offsets_inv_def)
  have "(\<Sum>j<i. length ((ps @ cs @ rest) ! (2 * j)) + length ((ps @ cs @ rest) ! (2 * j + 1)))
      = (\<Sum>j<i. length (ps ! (2 * j)) + length (ps ! (2 * j + 1)))"
    using assms(2) len by (intro sum.cong) (simp_all add: nth_append)
  also have "\<dots> = total_length (take (2 * i) ps)"
    using assms(2) len by (simp add: total_length_pairs)
  finally show ?thesis
    using assms len by (simp add: nth_append offsets_inv_def)
qed

text \<open>The name of an entry is read back from its central directory header, each code unit modulo 256.\<close>

lemma length_entry_cdHeader:
  "length (entry_cdHeader date name bytes isFolder off) = 46 + length name"
  by (simp add: entry_cdHeader_def cdHeader_def Let_def Zipper_stringToBytes_def)

lemma entry_cdHeader_name_length:
  "subarray (entry_cdHeader date name bytes isFolder off) 28 30 =
     numberToBytes (int (length name)) 2"
  by (simp add: subarray_def clamp_index_def entry_cdHeader_def cdHeader_def Let_def
      Zipper_stringToBytes_def)

lemma entry_cdHeader_name:
  "subarray (entry_cdHeader date name bytes isFolder off) 46 (46 + int (length name)) =
     Zipper_stringToBytes name"
  by (simp add: subarray_def clamp_index_def entry_cdHeader_def cdHeader_def Let_def
      Zipper_stringToBytes_def nat_add_distrib)

lemma name_of_entry_cdHeader:
  assumes "length name < 65536"
  shows "Zipper_bytesToString
      (subarray (entry_cdHeader date name bytes isFolder off) 46
        (46 + Zipper_bytesToNumber (subarray (entry_cdHeader date name bytes isFolder off) 28 30)))
    = map (\<lambda>c. c mod 256) name"
proof -
  have "Zipper_bytesToNumber (numberToBytes (int (length name)) 2) = int (length name)"
    using assms by (intro bytesToNumber_numberToBytes_2) simp_all
  then show ?thesis
    by (simp add: entry_cdHeader_name_length entry_cdHeader_name
        Zipper_bytesToString_def Zipper_stringToBytes_def unat_of_nat o_def)
qed

section \<open>Concrete runs\<close>

lemma length_big_payload: "length big_payload = 2147483648"
  by (simp add: big_payload_def)

lemma length_entry_localHeader:
  "length (entry_localHeader date name bytes) = 30 + length name"
  by (simp add: entry_localHeader_def localHeader_def Let_def Zipper_stringToBytes_def)

lemma Zipper_addEntry_accept:
  assumes "entry_filename z filename isFolder = Some name" "dataToBytes d = Some bytes"
    "length bytes \<le> 0xFFFFFFFF"
  shows "Zipper_addEntry z date filename d isFolder =
    z\<lparr>parts := parts z @ [entry_localHeader date name bytes, bytes],
      cd := cd z @ [entry_cdHeader date name bytes isFolder (total_length (parts z))]\<rparr>"
  using assms by (simp add: Zipper_addEntry_def)

lemmas path_eval = entry_filename_def strip_trailing_slash_def strip_leading_slash_def
  endsWith_def slash_def js_def Let_def

lemma big_run:
  "run big_calls =
   \<lparr>parts = [entry_localHeader leap_day [97] big_payload, big_payload,
              entry_localHeader leap_day [98] big_payload, big_payload,
              entry_localHeader leap_day [99] [], []],
     cd = [entry_cdHeader leap_day [97] big_payload False 0,
           entry_cdHeader leap_day [98] big_payload False 2147483679,
           entry_cdHeader leap_day [99] [] False 4294967358]\<rparr>"
proof -
  define z1 where "z1 = addFile Zipper_new leap_day (JString (js ''a'')) (JUint8Array big_payload)"
  define z2 where "z2 = addFile z1 leap_day (JString (js ''b'')) (JUint8Array big_payload)"
  define z3 where "z3 = addFile z2 leap_day (JString (js ''c'')) JNull"
  have z1: "z1 = \<lparr>parts = [entry_localHeader leap_day [97] big_payload, big_payload],
      cd = [entry_cdHeader leap_day [97] big_payload False 0]\<rparr>"
    unfolding z1_def addFile_def
    by (subst Zipper_addEntry_accept [where name = "[97]" and bytes = big_payload])
       (simp_all add: path_eval getNames_def Zipper_new_def length_big_payload)
  have z2: "z2 = \<lparr>parts = [entry_localHeader leap_day [97] big_payload, big_payload,
        entry_localHeader leap_day [98] big_payload, big_payload],
      cd = [entry_cdHeader leap_day [97] big_payload False 0,
        entry_cdHeader leap_day [98] big_payload False 2147483679]\<rparr>"
    unfolding z2_def addFile_def
    by (subst Zipper_addEntry_accept [where name = "[98]" and bytes = big_payload])
       (simp_all add: path_eval getNames_def name_of_entry_cdHeader z1 length_big_payload
         length_entry_localHeader)
  have z3: "z3 = \<lparr>parts = [entry_localHeader leap_day [97] big_payload, big_payload,
        entry_localHeader leap_day [98] big_payload, big_payload,
        entry_localHeader leap_day [99] [], []],
      cd = [entry_cdHeader leap_day [97] big_payload False 0,
        entry_cdHeader leap_day [98] big_payload False 2147483679,
        entry_cdHeader leap_day [99] [] False 4294967358]\<rparr>"
    unfolding z3_def addFile_def
    by (subst Zipper_addEntry_accept [where name = "[99]" and bytes = "[]"])
       (simp_all add: path_eval getNames_def name_of_entry_cdHeader z2 length_big_payload
         length_entry_localHeader)
  show ?thesis
    by (simp add: run_def big_calls_def z1_def [symmetric] z2_def [symmetric] z3_def [symmetric] z3)
qed

lemma small_run:
  "run small_calls =
   \<lparr>parts = [entry_localHeader leap_day [97] [], [], entry_localHeader leap_day [98] [], []],
     cd = [entry_cdHeader leap_day [97] [] False 0, entry_cdHeader leap_day [98] [] False 31]\<rparr>"
proof -
  define z1 where "z1 = addFile Zipper_new leap_day (JString (js ''a'')) JNull"
  define z2 where "z2 = addFile z1 leap_day (JString (js ''b'')) JNull"
  have z1: "z1 = \<lparr>parts = [entry_localHeader leap_day [97] [], []],
      cd = [entry_cdHeader leap_day [97] [] False 0]\<rparr>"
    unfolding z1_def addFile_def
    by (subst Zipper_addEntry_accept [where name = "[97]" and bytes = "[]"])
       (simp_all add: path_eval getNames_def Zipper_new_def)
  have z2: "z2 = \<lparr>parts = [entry_localHeader leap_day [97] [], [],
        entry_localHeader leap_day [98] [], []],
      cd = [entry_cdHeader leap_day [97] [] False 0, entry_cdHeader leap_day [98] [] False 31]\<rparr>"
    unfolding z2_def addFile_def
    by (subst Zipper_addEntry_accept [where name = "[98]" and bytes = "[]"])
       (simp_all add: path_eval getNames_def name_of_entry_cdHeader z1 length_entry_localHeader)
  show ?thesis
    by (simp add: run_def small_calls_def z1_def [symmetric] z2_def [symmetric] z2)
qed

text \<open>
  Claim C2, as amended. For the entries added in sequence, the offset field written into
  the central directory header of entry \<open>i\<close> is the four-byte little-endian encoding of
  the sum, over the entries before \<open>i\<close>, of the length of the local file header plus the
  length of the data (the ZIP builders add no padding); read back as an unsigned number
  it is that sum modulo \<open>2^32\<close>. The sum is empty, hence 0, for the first entry. This is
  so for the chunks returned by \<^verbatim>\<open>_pack\<close> of \<^verbatim>\<open>src/zip.js\<close> (chunk \<open>2j\<close> is the local
  header of entry \<open>j\<close>, chunk \<open>2j + 1\<close> its data, chunk \<open>2n + i\<close> the central directory
  header of entry \<open>i\<close>) and for the object of \<^verbatim>\<open>src/src/zip.js\<close> after any sequence of
  calls.
\<close>

theorem central_directory_offsets:
  "(pack comment0 clock es = Inr out \<and> i < length es \<longrightarrow>
      cd_offset_field (out ! (2 * length es + i)) =
        numberToBytes (int (\<Sum>j<i. length (out ! (2 * j)) + length (out ! (2 * j + 1)))) 4
      \<and> le_value (cd_offset_field (out ! (2 * length es + i))) =
        (\<Sum>j<i. length (out ! (2 * j)) + length (out ! (2 * j + 1))) mod 2 ^ 32)
   \<and> (k < count (run calls) \<longrightarrow>
      cd_offset_field (cd (run calls) ! k) =
        numberToBytes (int (\<Sum>j<k. length (parts (run calls) ! (2 * j))
          + length (parts (run calls) ! (2 * j + 1)))) 4
      \<and> le_value (cd_offset_field (cd (run calls) ! k)) =
        (\<Sum>j<k. length (parts (run calls) ! (2 * j))
          + length (parts (run calls) ! (2 * j + 1))) mod 2 ^ 32)"
proof (intro conjI impI)
  assume a: "pack comment0 clock es = Inr out \<and> i < length es"
  then obtain ps cs eocd where
    out: "out = ps @ cs @ [eocd]" and inv: "offsets_inv ps cs" and len: "length cs = length es"
    using pack_chunks by blast
  from a len have i: "i < length cs"
    by simp
  show f: "cd_offset_field (out ! (2 * length es + i)) =
      numberToBytes (int (\<Sum>j<i. length (out ! (2 * j)) + length (out ! (2 * j + 1)))) 4"
    using chunks_offset [OF inv i, of "[eocd]"] by (simp add: out len)
  show "le_value (cd_offset_field (out ! (2 * length es + i))) =
      (\<Sum>j<i. length (out ! (2 * j)) + length (out ! (2 * j + 1))) mod 2 ^ 32"
    unfolding f by (rule le_value_numberToBytes_4_nat)
next
  assume k: "k < count (run calls)"
  have inv: "offsets_inv (parts (run calls)) (cd (run calls))"
    by (rule offsets_inv_run)
  from k have k': "k < length (cd (run calls))"
    by (simp add: count_def)
  show f: "cd_offset_field (cd (run calls) ! k) =
      numberToBytes (int (\<Sum>j<k. length (parts (run calls) ! (2 * j))
        + length (parts (run calls) ! (2 * j + 1)))) 4"
    using chunks_offset [OF inv k', of "[]"] inv k'
    by (simp add: nth_append offsets_inv_def)
  show "le_value (cd_offset_field (cd (run calls) ! k)) =
      (\<Sum>j<k. length (parts (run calls) ! (2 * j))
        + length (parts (run calls) ! (2 * j + 1))) mod 2 ^ 32"
    unfolding f by (rule le_value_numberToBytes_4_nat)
qed

theorem central_directory_offsets_witness:
  "(\<exists>out. pack None (\<lambda>k. leap_day) small_entries = Inr out
      \<and> 1 < length small_entries
      \<and> le_value (cd_offset_field (out ! (2 * length small_entries + 1))) =
          (\<Sum>j<1. length (out ! (2 * j)) + length (out ! (2 * j + 1))) mod 2 ^ 32)
   \<and> 1 < count (run small_calls)
   \<and> le_value (cd_offset_field (cd (run small_calls) ! 1)) =
       (\<Sum>j<1. length (parts (run small_calls) ! (2 * j))
         + length (parts (run small_calls) ! (2 * j + 1))) mod 2 ^ 32"
proof -
  obtain out where out: "pack None (\<lambda>k. leap_day) small_entries = Inr out"
    by (simp add: pack_def validateComment_def Let_def)
  have n: "1 < length small_entries"
    by (simp add: small_entries_def)
  have c: "1 < count (run small_calls)"
    by (simp add: small_run count_def)
  from central_directory_offsets [of None "\<lambda>k. leap_day" small_entries out 1 1 small_calls]
    out n c
  show ?thesis
    by blast
qed

text \<open>
  The claim as stated fails once the chunks before an entry reach four gibibytes: after
  two files of \<open>2^31\<close> bytes, the offset field of the third entry reads 62, while the
  local headers and data before it take \<open>2^32 + 62\<close> bytes.
\<close>

theorem central_directory_offsets_counterexample:
  "le_value (cd_offset_field (cd (run big_calls) ! 2)) = 62
   \<and> length (parts (run big_calls) ! 0) + length (parts (run big_calls) ! 1)
     + length (parts (run big_calls) ! 2) + length (parts (run big_calls) ! 3) = 4294967358"
  by (simp add: big_run cd_offset_field_entry_cdHeader le_value_numberToBytes_4
      length_entry_localHeader length_big_payload)

section \<open>Two chunks per entry\<close>

lemma Zipper_addEntry_cases:
  "Zipper_addEntry z date filename d isFolder = z
   \<or> (\<exists>lh bytes c. Zipper_addEntry z date filename d isFolder =
         z\<lparr>parts := parts z @ [lh, bytes], cd := cd z @ [c]\<rparr>)"
  unfolding Zipper_addEntry_def
  by (auto split: option.split)

lemma parts_cd_inv_addEntry:
  "parts_cd_inv z \<Longrightarrow> parts_cd_inv (Zipper_addEntry z date filename d isFolder)"
  using Zipper_addEntry_cases [of z date filename d isFolder]
  by (auto simp add: parts_cd_inv_def)

lemma parts_cd_inv_pop: "parts_cd_inv z \<Longrightarrow> parts_cd_inv (pop z)"
  by (simp add: parts_cd_inv_def pop_def)

lemma parts_cd_inv_perform: "parts_cd_inv z \<Longrightarrow> parts_cd_inv (perform z c)"
  by (cases c) (simp_all add: addFile_def addFolder_def parts_cd_inv_addEntry parts_cd_inv_pop)

lemma parts_cd_inv_foldl: "parts_cd_inv z \<Longrightarrow> parts_cd_inv (foldl perform z calls)"
  by (induction calls arbitrary: z) (simp_all add: parts_cd_inv_perform)

lemma parts_cd_inv_run: "parts_cd_inv (run calls)"
  unfolding run_def by (rule parts_cd_inv_foldl) (simp add: parts_cd_inv_def Zipper_new_def)

lemma pop_nonempty:
  assumes "parts_cd_inv z" "cd z \<noteq> []"
  shows "\<exists>lh bytes c. parts z = parts (pop z) @ [lh, bytes] \<and> cd z = cd (pop z) @ [c]"
proof -
  from assms have "length (parts z) \<ge> 2"
    by (cases "cd z") (simp_all add: parts_cd_inv_def)
  then have p: "parts z \<noteq> []" "butlast (parts z) \<noteq> []"
    by (auto simp add: length_greater_0_conv [symmetric] simp del: length_greater_0_conv)
  have "parts z = butlast (butlast (parts z)) @ [last (butlast (parts z)), last (parts z)]"
    using p by (metis append_butlast_last_id append.assoc append_Cons append_Nil)
  moreover have "cd z = butlast (cd z) @ [last (cd z)]"
    using assms(2) by simp
  ultimately show ?thesis
    by (auto simp add: pop_def)
qed

lemma pop_empty: "parts_cd_inv z \<Longrightarrow> cd z = [] \<Longrightarrow> pop z = z"
  by (simp add: parts_cd_inv_def pop_def)

text \<open>
  Claim C9, as amended. After every sequence of \<^verbatim>\<open>addFile\<close>, \<^verbatim>\<open>addFolder\<close> and \<^verbatim>\<open>pop\<close>
  calls on a fresh object, \<^verbatim>\<open>_parts\<close> holds exactly two chunks per central directory
  header and \<^verbatim>\<open>count()\<close> is the number of headers. An add either leaves the object as it
  was or appends two chunks and one header. \<^verbatim>\<open>pop\<close> removes the last header and the last
  two chunks when there is an entry, and leaves an empty archive as it is.
\<close>

theorem parts_cd_invariant:
  "length (parts (run calls)) = 2 * length (cd (run calls))
   \<and> count (run calls) = length (cd (run calls))
   \<and> (addFile (run calls) date p d = run calls
      \<or> (\<exists>lh bytes c. addFile (run calls) date p d =
            (run calls)\<lparr>parts := parts (run calls) @ [lh, bytes],
              cd := cd (run calls) @ [c]\<rparr>))
   \<and> (addFolder (run calls) date p = run calls
      \<or> (\<exists>lh bytes c. addFolder (run calls) date p =
            (run calls)\<lparr>parts := parts (run calls) @ [lh, bytes],
              cd := cd (run calls) @ [c]\<rparr>))
   \<and> (cd (run calls) \<noteq> [] \<longrightarrow>
        (\<exists>lh bytes c. parts (run calls) = parts (pop (run calls)) @ [lh, bytes]
           \<and> cd (run calls) = cd (pop (run calls)) @ [c]))
   \<and> (cd (run calls) = [] \<longrightarrow> pop (run calls) = run calls)"
proof -
  have inv: "parts_cd_inv (run calls)"
    by (rule parts_cd_inv_run)
  then have "length (parts (run calls)) = 2 * length (cd (run calls))"
    by (simp add: parts_cd_inv_def)
  moreover have "count (run calls) = length (cd (run calls))"
    by (simp add: count_def)
  moreover note Zipper_addEntry_cases [of "run calls" date p d False, folded addFile_def]
  moreover note Zipper_addEntry_cases [of "run calls" date p JNull True, folded addFolder_def]
  moreover note pop_nonempty [OF inv] pop_empty [OF inv]
  ultimately show ?thesis
    by blast
qed

theorem parts_cd_invariant_witness:
  "cd (run small_calls) \<noteq> []
   \<and> (\<exists>lh bytes c. parts (run small_calls) = parts (pop (run small_calls)) @ [lh, bytes]
         \<and> cd (run small_calls) = cd (pop (run small_calls)) @ [c])
   \<and> length (parts (run small_calls)) = 2 * length (cd (run small_calls))
   \<and> cd (run []) = []
   \<and> pop (run []) = run []"
proof -
  have "cd (run small_calls) \<noteq> []"
    by (simp add: small_run)
  moreover have "cd (run []) = []"
    by (simp add: run_def Zipper_new_def)
  ultimately show ?thesis
    using parts_cd_invariant [of small_calls] parts_cd_invariant [of "[]"]
    by blast
qed

text \<open>
  The claim as stated fails on an empty archive: \<^verbatim>\<open>pop\<close> removes no header there, so
  the number of headers does not go down by one.
\<close>

theorem pop_removes_one_counterexample:
  "length (cd (run [])) \<noteq> length (cd (pop (run []))) + 1"
  by (simp add: run_def Zipper_new_def pop_def)

section \<open>\<^verbatim>\<open>_pack\<close> and the clock\<close>

lemma getLocalFileHeader_date:
  "take 4 (drop 10 (getLocalFileHeader checksum sz p date)) = dateToBytes date"
  by (simp add: getLocalFileHeader_def Let_def)

lemma header_cong:
  assumes "dateToBytes d1 = dateToBytes d2"
  shows "getLocalFileHeader checksum sz p d1 = getLocalFileHeader checksum sz p d2"
    "getCentralDirectoryHeader checksum sz p off d1 = getCentralDirectoryHeader checksum sz p off d2"
  using assms by (simp_all add: getLocalFileHeader_def getCentralDirectoryHeader_def Let_def)

lemma pack_step_cong:
  assumes "dateToBytes (clock1 (2 * i)) = dateToBytes (clock2 (2 * i))"
    "dateToBytes (clock1 (2 * i + 1)) = dateToBytes (clock2 (2 * i + 1))"
  shows "pack_step clock1 i e st = pack_step clock2 i e st"
  unfolding pack_step_def Let_def
  by (simp only: header_cong(1) [OF assms(1)] header_cong(2) [OF assms(2)])

lemma pack_loop_cong:
  assumes "\<And>k. 2 * i \<le> k \<Longrightarrow> k < 2 * (i + length es) \<Longrightarrow>
    dateToBytes (clock1 k) = dateToBytes (clock2 k)"
  shows "pack_loop clock1 i es st = pack_loop clock2 i es st"
  using assms
proof (induction es arbitrary: i st)
  case Nil
  then show ?case by simp
next
  case (Cons e es)
  have "pack_step clock1 i e st = pack_step clock2 i e st"
    by (rule pack_step_cong) (simp_all add: Cons.prems)
  moreover have "pack_loop clock1 (Suc i) es st' = pack_loop clock2 (Suc i) es st'" for st'
    by (rule Cons.IH) (simp add: Cons.prems)
  ultimately show ?case
    by simp
qed

lemma pack_cong:
  assumes "\<And>k. k < 2 * length es \<Longrightarrow> dateToBytes (clock1 k) = dateToBytes (clock2 k)"
  shows "pack c clock1 es = pack c clock2 es"
proof -
  have "pack_loop clock1 0 es st = pack_loop clock2 0 es st" for st
    by (rule pack_loop_cong) (simp add: assms)
  then show ?thesis
    by (simp add: pack_def cong: sum.case_cong)
qed

lemma same_stamp: "dateToBytes (leap_day\<lparr>getSeconds := 58\<rparr>) = dateToBytes leap_day"
  by (simp add: dateToBytes_def leap_day_def js_sar_def js_shl_def js_and_def toInt32_def)

lemma pack_one:
  "pack None clock [e] =
     Inr [getLocalFileHeader (uint (bytesToCrc32 (data e))) (int (length (data e))) (path e) (clock 0),
          data e,
          getCentralDirectoryHeader (uint (bytesToCrc32 (data e))) (int (length (data e))) (path e)
            0 (clock 1),
          getEOCDHeader 1
            (int (length (getCentralDirectoryHeader (uint (bytesToCrc32 (data e)))
               (int (length (data e))) (path e) 0 (clock 1))))
            (int (length (getLocalFileHeader (uint (bytesToCrc32 (data e)))
               (int (length (data e))) (path e) (clock 0)) + length (data e))) []]"
  by (simp add: pack_def validateComment_def pack_step_def Let_def)


text \<open>The loop of \<^verbatim>\<open>_pack\<close> builds the two regions of the archive.\<close>

lemma numberToBytes_0_2: "numberToBytes 0 2 = [0, 0]"
  by (simp add: numberToBytes_2 js_and_def js_sar_def toInt32_def)

lemma getLocalFileHeader_stamped:
  "getLocalFileHeader (uint (bytesToCrc32 (data e))) (int (length (data e))) (path e) date =
     stamped_local_header (dateToBytes date) e"
  by (simp add: getLocalFileHeader_def stamped_local_header_def Let_def stringToBytes_def
      numberToBytes_0_2)

lemma getCentralDirectoryHeader_stamped:
  "getCentralDirectoryHeader (uint (bytesToCrc32 (data e))) (int (length (data e))) (path e)
       (int offset) date =
     stamped_cd_header (dateToBytes date) offset e"
  by (simp add: getCentralDirectoryHeader_def stamped_cd_header_def Let_def stringToBytes_def
      numberToBytes_0_2)

lemma pack_step_stamped:
  "pack_step clock i e st =
     \<lparr>pk_parts = pk_parts st @ [stamped_local_header (dateToBytes (clock (2 * i))) e, data e],
      pk_cd = pk_cd st @ [stamped_cd_header (dateToBytes (clock (2 * i + 1))) (pk_offset st) e],
      pk_offset = pk_offset st
        + (length (stamped_local_header (dateToBytes (clock (2 * i))) e) + length (data e)),
      pk_cdSize = pk_cdSize st
        + length (stamped_cd_header (dateToBytes (clock (2 * i + 1))) (pk_offset st) e)\<rparr>"
  by (simp add: pack_step_def Let_def getLocalFileHeader_stamped
      getCentralDirectoryHeader_stamped)

lemma pack_loop_regions:
  "pack_loop clock i es st =
     \<lparr>pk_parts = pk_parts st @ entries_region (\<lambda>k. dateToBytes (clock k)) i es,
      pk_cd = pk_cd st @ directory_region (\<lambda>k. dateToBytes (clock k)) i (pk_offset st) es,
      pk_offset = pk_offset st
        + length (concat (entries_region (\<lambda>k. dateToBytes (clock k)) i es)),
      pk_cdSize = pk_cdSize st
        + length (concat (directory_region (\<lambda>k. dateToBytes (clock k)) i (pk_offset st) es))\<rparr>"
proof (induction es arbitrary: i st)
  case Nil
  then show ?case
    by simp
next
  case (Cons e es)
  show ?case
    by (simp add: Cons.IH pack_step_stamped add.assoc)
qed

lemma length_directory_region [simp]: "length (directory_region stamps i offset es) = length es"
  by (induction es arbitrary: i offset) simp_all

lemma pack_archive: "pack c clock es = archive c (\<lambda>k. dateToBytes (clock k)) es"
  by (simp add: pack_def archive_def pack_loop_regions Let_def cong: sum.case_cong)
text \<open>
  Claim C7, as amended. \<^verbatim>\<open>_pack\<close> of \<^verbatim>\<open>src/zip.js\<close> stamps every header with the time of
  the call (\<^verbatim>\<open>dateToBytes\<close> reads \<^verbatim>\<open>new Date()\<close>), so batch materialization is a function
  of the entries, the comment and the date and time bytes stamped: the chunks returned
  are the archive made of these, or the error of the comment. Hence two materializations
  of the same entries with the same comment are byte-identical whenever the clock
  readings they take encode to the same four date and time bytes. Materializing leaves
  the entries as they are, so a second call after the first returns the same as the
  first under the same condition.
\<close>

theorem pack_function_of_entries_comment_stamps:
  assumes "\<And>k. k < 2 * length es \<Longrightarrow> dateToBytes (clock1 k) = dateToBytes (clock2 k)"
  shows "pack_method es c clock1 = (es, archive c (\<lambda>k. dateToBytes (clock1 k)) es)
    \<and> fst (pack_method es c clock1) = es
    \<and> pack_method es c clock2 = pack_method es c clock1
    \<and> pack_method (fst (pack_method es c clock1)) c clock2 = pack_method es c clock1
    \<and> pack c clock1 es = pack c clock2 es
    \<and> toBlob c clock1 es = toBlob c clock2 es"
  using pack_cong [of es clock1 clock2 c] pack_archive [of c clock1 es] assms
  by (simp add: pack_method_def toBlob_def)

theorem pack_function_of_entries_comment_stamps_witness:
  "dateToBytes (leap_day\<lparr>getSeconds := 58\<rparr>) = dateToBytes leap_day
   \<and> leap_day\<lparr>getSeconds := 58\<rparr> \<noteq> leap_day
   \<and> pack_method small_entries None (\<lambda>k. leap_day\<lparr>getSeconds := 58\<rparr>) =
       (small_entries, archive None (\<lambda>k. dateToBytes (leap_day\<lparr>getSeconds := 58\<rparr>)) small_entries)
   \<and> fst (pack_method small_entries None (\<lambda>k. leap_day\<lparr>getSeconds := 58\<rparr>)) = small_entries
   \<and> pack_method small_entries None (\<lambda>k. leap_day) =
       pack_method small_entries None (\<lambda>k. leap_day\<lparr>getSeconds := 58\<rparr>)
   \<and> pack_method (fst (pack_method small_entries None (\<lambda>k. leap_day\<lparr>getSeconds := 58\<rparr>))) None
         (\<lambda>k. leap_day) =
       pack_method small_entries None (\<lambda>k. leap_day\<lparr>getSeconds := 58\<rparr>)
   \<and> pack None (\<lambda>k. leap_day\<lparr>getSeconds := 58\<rparr>) small_entries =
       pack None (\<lambda>k. leap_day) small_entries
   \<and> toBlob None (\<lambda>k. leap_day\<lparr>getSeconds := 58\<rparr>) small_entries =
       toBlob None (\<lambda>k. leap_day) small_entries"
proof -
  have "leap_day\<lparr>getSeconds := 58\<rparr> \<noteq> leap_day"
    by (simp add: leap_day_def)
  with pack_function_of_entries_comment_stamps
    [of small_entries "\<lambda>k. leap_day\<lparr>getSeconds := 58\<rparr>" "\<lambda>k. leap_day" None]
    same_stamp
  show ?thesis
    by simp
qed

text \<open>
  The claim as stated fails: the same entries with the same comment, materialized at
  two different times, give different bytes.
\<close>

theorem pack_depends_on_clock_counterexample:
  "pack None (\<lambda>k. leap_day) one_entry \<noteq> pack None (\<lambda>k. new_year) one_entry"
proof
  assume "pack None (\<lambda>k. leap_day) one_entry = pack None (\<lambda>k. new_year) one_entry"
  then have "getLocalFileHeader (uint (bytesToCrc32 [])) 0 (js ''a'') leap_day =
      getLocalFileHeader (uint (bytesToCrc32 [])) 0 (js ''a'') new_year"
    by (simp add: one_entry_def pack_one)
  then have "take 4 (drop 10 (getLocalFileHeader (uint (bytesToCrc32 [])) 0 (js ''a'') leap_day)) =
      take 4 (drop 10 (getLocalFileHeader (uint (bytesToCrc32 [])) 0 (js ''a'') new_year))"
    by (simp only:)
  then have "dateToBytes leap_day = dateToBytes new_year"
    by (simp only: getLocalFileHeader_date)
  then show False
    by (simp add: dateToBytes_def leap_day_def new_year_def js_sar_def js_shl_def js_and_def
        toInt32_def)
qed
section \<open>Folders and files\<close>












section \<open>The streaming checksum\<close>

lemma crc_loop_unfold:
  "i < fileLength \<Longrightarrow>
   crc_loop v fileLength crc i =
     crc_loop v fileLength (crc_update CRC_TABLE crc (chunk_byte v i)) (Suc i)"
  "\<not> i < fileLength \<Longrightarrow> crc_loop v fileLength crc i = (crc, i)"
  by (subst crc_loop.simps, simp)+


lemma crc_loop_foldl:
  "i \<le> fileLength \<Longrightarrow>
   crc_loop v fileLength crc i =
     (foldl (crc_update CRC_TABLE) crc (map (chunk_byte v) [i..<fileLength]), fileLength)"
proof (induction v fileLength crc i rule: crc_loop.induct)
  case (1 v fileLength crc i)
  show ?case
  proof (cases "i < fileLength")
    case True
    then have u: "[i..<fileLength] = i # [Suc i..<fileLength]"
      by (simp add: upt_conv_Cons)
    from True have "crc_loop v fileLength crc i =
        crc_loop v fileLength (crc_update CRC_TABLE crc (chunk_byte v i)) (Suc i)"
      by (rule crc_loop_unfold)
    also from True have "\<dots> = (foldl (crc_update CRC_TABLE)
        (crc_update CRC_TABLE crc (chunk_byte v i)) (map (chunk_byte v) [Suc i..<fileLength]),
        fileLength)"
      by (intro "1.IH") simp_all
    finally show ?thesis
      by (simp only: u list.map foldl.simps)
  next
    case False
    with "1.prems" have "i = fileLength"
      by simp
    with False show ?thesis
      by (simp add: crc_loop_unfold)
  qed
qed
lemma fed_chunk:
  "map (chunk_byte v) [i..<i + n] = take n (drop i v @ replicate n 0)"
proof (rule nth_equalityI)
  show "length (map (chunk_byte v) [i..<i + n]) = length (take n (drop i v @ replicate n 0))"
    by simp
next
  fix k
  assume "k < length (map (chunk_byte v) [i..<i + n])"
  then have k: "k < n"
    by simp
  then show "map (chunk_byte v) [i..<i + n] ! k = take n (drop i v @ replicate n 0) ! k"
    by (auto simp add: chunk_byte_def nth_append)
qed

lemma read_loop_crc:
  assumes "rd_i st = rd_fileLength st"
    "rd_fileLength st + length (concat chunks) \<le> 0xFFFFFFFF"
  shows "rd_crc (read_loop chunks st) =
      foldl (crc_update CRC_TABLE) (rd_crc st) (fed_bytes chunks (rd_i st))
    \<and> rd_fileLength (read_loop chunks st) = rd_fileLength st + length (concat chunks)
    \<and> s_out (rd_stream (read_loop chunks st)) = s_out (rd_stream st) @ chunks"
  using assms
proof (induction chunks arbitrary: st)
  case Nil
  then show ?case by simp
next
  case (Cons v rest)
  define st' where "st' = \<lparr>rd_stream = enqueue (rd_stream st) v,
    rd_crc = foldl (crc_update CRC_TABLE) (rd_crc st)
      (map (chunk_byte v) [rd_i st..<rd_fileLength st + length v]),
    rd_fileLength = rd_fileLength st + length v, rd_i = rd_fileLength st + length v\<rparr>"
  have step: "read_loop (v # rest) st = read_loop rest st'"
  proof -
    have "\<not> rd_fileLength st + length v > 0xFFFFFFFF"
      using Cons.prems by simp
    moreover have "crc_loop v (rd_fileLength st + length v) (rd_crc st) (rd_i st) =
        (foldl (crc_update CRC_TABLE) (rd_crc st)
          (map (chunk_byte v) [rd_i st..<rd_fileLength st + length v]),
         rd_fileLength st + length v)"
      using Cons.prems by (intro crc_loop_foldl) simp
    ultimately show ?thesis
      by (simp only: read_loop.simps Let_def if_False st'_def prod.case)
  qed
  have "rd_i st' = rd_fileLength st'"
    "rd_fileLength st' + length (concat rest) \<le> 0xFFFFFFFF"
    using Cons.prems by (simp_all add: st'_def)
  from Cons.IH [OF this] Cons.prems(1) show ?case
    unfolding step by (simp add: st'_def enqueue_def fed_chunk)
qed

text \<open>A round of the bitwise definition loses nothing, so neither does a round of the table.\<close>

lemma xor_right_cancel:
  fixes x y k :: u32
  assumes "x XOR k = y XOR k"
  shows "x = y"
proof -
  have "x = (x XOR k) XOR k"
    by (simp add: xor.assoc)
  also have "\<dots> = (y XOR k) XOR k"
    by (simp only: assms)
  also have "\<dots> = y"
    by (simp add: xor.assoc)
  finally show ?thesis .
qed

lemma crc_shift_inj: "crc_shift a = crc_shift b \<Longrightarrow> a = b"
proof -
  assume e: "crc_shift a = crc_shift b"
  have top: "bit (crc_shift c) 31 = bit c 0" for c
    by (simp add: crc_shift_def bit_xor_iff bit_drop_bit_eq bit_simps)
       (auto dest: bit_imp_le_length)
  from e top [of a] top [of b] have z: "bit a 0 = bit b 0"
    by simp
  with e have d: "drop_bit 1 a = drop_bit 1 b"
    by (auto simp add: crc_shift_def split: if_splits dest: xor_right_cancel)
  show "a = b"
  proof (rule bit_eqI)
    fix n
    show "bit a n = bit b n"
    proof (cases n)
      case 0
      with z show ?thesis by simp
    next
      case (Suc m)
      have "bit (drop_bit 1 a) m = bit (drop_bit 1 b) m"
        by (simp only: d)
      with Suc show ?thesis
        by (simp add: bit_drop_bit_eq)
    qed
  qed
qed

lemma crc_bits_inj: "crc_bits n a = crc_bits n b \<Longrightarrow> a = b"
  by (induction n arbitrary: a b) (auto dest: crc_shift_inj)

lemma ucast_byte_inj:
  fixes a b :: byte
  assumes "(ucast a :: u32) = ucast b"
  shows "a = b"
proof (rule bit_eqI)
  fix n
  have "bit (ucast a :: u32) n = bit (ucast b :: u32) n"
    by (simp only: assms)
  then have "(n < 32 \<and> bit a n) = (n < 32 \<and> bit b n)"
    by (simp only: bit_ucast_iff) simp
  moreover have "bit a n \<Longrightarrow> n < 32" "bit b n \<Longrightarrow> n < 32"
    using bit_imp_le_length [of a n] bit_imp_le_length [of b n] by simp_all
  ultimately show "bit a n = bit b n"
    by blast
qed

lemma crc_update_inj:
  assumes "crc_update CRC_TABLE c a = crc_update CRC_TABLE c b"
  shows "a = b"
proof -
  from assms have "crc_bits 8 (c XOR ucast a) = crc_bits 8 (c XOR ucast b)"
    by (simp only: crc_update_bits)
  then have "c XOR ucast a = c XOR ucast b"
    by (rule crc_bits_inj)
  then have "ucast a XOR c = (ucast b :: u32) XOR c"
    by (simp only: xor.commute)
  then have "(ucast a :: u32) = ucast b"
    by (rule xor_right_cancel)
  then show ?thesis
    by (rule ucast_byte_inj)
qed

lemma bytesToCrc32_last_inj:
  "bytesToCrc32 (xs @ [a]) = bytesToCrc32 (xs @ [b]) \<Longrightarrow> a = b"
  by (auto simp add: bytesToCrc32_def dest: crc_update_inj xor_right_cancel)

lemma numberToBytes_uint_inj:
  fixes a b :: u32
  assumes "numberToBytes (uint a) 4 = numberToBytes (uint b) 4"
  shows "a = b"
proof -
  have v: "le_value (numberToBytes (uint w) 4) = unat w" for w :: u32
  proof -
    have "uint w < 2 ^ 32"
      using uint_lt2p [of w] by simp
    then have "uint w mod 2 ^ 32 = uint w"
      by simp
    then show ?thesis
      by (simp only: le_value_numberToBytes_4 unat_eq_nat_uint)
  qed
  have "unat a = le_value (numberToBytes (uint a) 4)"
    by (simp only: v)
  also have "\<dots> = unat b"
    by (simp only: assms v)
  finally show ?thesis
    by (rule unsigned_word_eqI)
qed

text \<open>The Data Descriptor of an \<^verbatim>\<open>addStream\<close> call that goes through.\<close>

lemma s_out_enqueue: "s_out (enqueue x c) = s_out x @ [c]"
  by (simp add: enqueue_def)

lemma addStream_descriptor:
  assumes "strip_trailing_slash (strip_leading_slash (collapse_slashes str)) \<noteq> []"
    "length (concat chunks) \<le> 0xFFFFFFFF"
  shows "emitted_descriptor (addStream s date (JString str) chunks) =
    dataDescriptor (foldl (crc_update CRC_TABLE) (- 1) (fed_bytes chunks 0))
      (length (concat chunks))"
proof -
  let ?name = "strip_trailing_slash (strip_leading_slash (collapse_slashes str))"
  let ?st0 = "\<lparr>rd_stream = enqueue s (stream_localHeader date ?name),
    rd_crc = - 1, rd_fileLength = 0, rd_i = 0\<rparr>"
  have "rd_i ?st0 = rd_fileLength ?st0"
    "rd_fileLength ?st0 + length (concat chunks) \<le> 0xFFFFFFFF"
    using assms(2) by simp_all
  from read_loop_crc [OF this] have
    r: "rd_crc (read_loop chunks ?st0) =
        foldl (crc_update CRC_TABLE) (- 1) (fed_bytes chunks 0)"
      "rd_fileLength (read_loop chunks ?st0) = length (concat chunks)"
    by simp_all
  from assms(2) have small: "\<not> length (concat chunks) > 0xFFFFFFFF"
    by simp
  show ?thesis
    using assms(1) small
    by (simp add: addStream_def emitted_descriptor_def Let_def r s_out_enqueue)
qed

lemma descriptor_fields:
  "descriptor_crc (dataDescriptor crc n) = numberToBytes (uint (crc XOR (- 1))) 4"
  "descriptor_size1 (dataDescriptor crc n) = numberToBytes (int n) 4"
  "descriptor_size2 (dataDescriptor crc n) = numberToBytes (int n) 4"
  by (simp_all add: descriptor_crc_def descriptor_size1_def descriptor_size2_def
      dataDescriptor_def Let_def)

lemma three_chunks_fed:
  "fed_bytes three_chunks 0 =
     [48, 49, 50, 51, 52, 53, 54, 55, 56, 57,
      0, 0, 0, 0, 0, 0, 0, 0, 0, 0, 0, 0, 0, 0, 0, 0, 0, 0, 0, 0, 0, 0, 0, 0] @ [0]"
  "concat three_chunks =
     [48, 49, 50, 51, 52, 53, 54, 55, 56, 57,
      0, 0, 0, 0, 0, 0, 0, 0, 0, 0, 0, 0, 0, 0, 0, 0, 0, 0, 0, 0, 0, 0, 0, 0] @ [1]"
  by (simp_all add: three_chunks_def)

text \<open>
  Claim C3 at a failing input. A source delivers 35 bytes in chunks of 10, 20 and 5
  bytes. The size fields of the Data Descriptor read 35, but its CRC field is the
  checksum of the bytes the inner loop reads (each chunk indexed by the running count),
  not the checksum of the concatenation of the chunks.
\<close>

theorem addStream_crc_depends_on_chunking:
  "le_value (descriptor_size1 (emitted_descriptor
      (addStream ZipperStream_new leap_day (JString (js ''f'')) three_chunks))) = 35
   \<and> le_value (descriptor_size2 (emitted_descriptor
      (addStream ZipperStream_new leap_day (JString (js ''f'')) three_chunks))) = 35
   \<and> descriptor_crc (emitted_descriptor
      (addStream ZipperStream_new leap_day (JString (js ''f'')) three_chunks)) =
     numberToBytes (uint (bytesToCrc32 (fed_bytes three_chunks 0))) 4
   \<and> descriptor_crc (emitted_descriptor
      (addStream ZipperStream_new leap_day (JString (js ''f'')) three_chunks)) \<noteq>
     numberToBytes (uint (bytesToCrc32 (concat three_chunks))) 4"
proof -
  have name: "strip_trailing_slash (strip_leading_slash (collapse_slashes (js ''f''))) \<noteq> []"
    by (simp add: js_def strip_trailing_slash_def strip_leading_slash_def slash_def)
  have len: "length (concat three_chunks) = 35"
    by (simp add: three_chunks_def)
  then have "length (concat three_chunks) \<le> 0xFFFFFFFF"
    by simp
  from addStream_descriptor [OF name this] have
    d: "emitted_descriptor (addStream ZipperStream_new leap_day (JString (js ''f'')) three_chunks) =
      dataDescriptor (foldl (crc_update CRC_TABLE) (- 1) (fed_bytes three_chunks 0)) 35"
    by (simp only: len)
  have "bytesToCrc32 (fed_bytes three_chunks 0) \<noteq> bytesToCrc32 (concat three_chunks)"
    unfolding three_chunks_fed using bytesToCrc32_last_inj by fastforce
  then have "numberToBytes (uint (bytesToCrc32 (fed_bytes three_chunks 0))) 4 \<noteq>
      numberToBytes (uint (bytesToCrc32 (concat three_chunks))) 4"
    using numberToBytes_uint_inj by blast
  moreover have "le_value (numberToBytes (int 35) 4) = 35"
    by (simp only: le_value_numberToBytes_4_nat) simp
  moreover have "numberToBytes (uint (foldl (crc_update CRC_TABLE) (- 1)
      (fed_bytes three_chunks 0) XOR (- 1))) 4 =
      numberToBytes (uint (bytesToCrc32 (fed_bytes three_chunks 0))) 4"
    by (simp only: bytesToCrc32_def)
  ultimately show ?thesis
    unfolding d descriptor_fields by (simp only: simp_thms)
qed

section \<open>The padding of the TAR builder\<close>

lemma length_stringToBytes_Some: "length (stringToBytes str (Some n)) = n"
  by (simp add: stringToBytes_def)

lemma length_stringToBytes_None: "length (stringToBytes str None) = length str"
  by (simp add: stringToBytes_def)

lemma length_last_chars: "k \<le> length str \<Longrightarrow> length (last_chars k str) = k"
  by (simp add: last_chars_def)

lemma length_getTarHeader: "length (getTarHeader p sz secs) = 512"
  by (simp add: getTarHeader_def Let_def length_stringToBytes_Some length_stringToBytes_None
      length_last_chars js_def)

lemma tar_step_pads:
  "tar_step secs f ps =
     ps @ [getTarHeader (path f) (length (data f)) secs, data f,
           replicate (512 - length (data f) mod 512) 0]"
proof -
  have "length (data f) mod 512 < 512"
    by simp
  then have "0 < 512 - length (data f) mod 512"
    by linarith
  then show ?thesis
    by (simp add: tar_step_def Let_def)
qed

text \<open>
  Claim C8 at a failing input. For a file whose data is already a multiple of 512 bytes
  long (here the empty file), \<^verbatim>\<open>_pack\<close> of the TAR builder still appends a full block of
  512 zero bytes after the data, so the padded data region is 512 bytes long instead
  of 0: \<^verbatim>\<open>pad\<close> is never 0 and the guard \<^verbatim>\<open>pad > 0\<close> always holds.
\<close>

theorem tar_pads_a_full_block:
  "tar_pack (\<lambda>k. 0) [\<lparr>path = js ''a'', data = []\<rparr>] =
     [getTarHeader (js ''a'') 0 0, [], replicate 512 0]
   \<and> map length (tar_pack (\<lambda>k. 0) [\<lparr>path = js ''a'', data = []\<rparr>]) = [512, 0, 512]"
  by (simp add: tar_pack_def tar_step_pads length_getTarHeader)

section \<open>The archive comment\<close>

lemma eocd_comment_fields:
  "eocd_comment (Zipper_getEOCD z c) = Zipper_stringToBytes (comment_spec c)"
  "eocd_comment_length (Zipper_getEOCD z c) = numberToBytes (int (length (comment_spec c))) 2"
  by (cases c; simp add: eocd_comment_def eocd_comment_length_def Zipper_getEOCD_def Let_def
      comment_spec_def Zipper_stringToBytes_def)+

lemma le_value_numberToBytes_2_nat: "n < 65536 \<Longrightarrow> le_value (numberToBytes (int n) 2) = n"
proof -
  assume "n < 65536"
  then have "int n mod 2 ^ 16 = int n"
    by simp
  then show ?thesis
    by (simp only: le_value_numberToBytes_2 nat_int)
qed

lemma length_comment_spec: "length (comment_spec c) \<le> 65535"
  by (cases c) (simp_all add: comment_spec_def)

text \<open>
  Claim C6, as amended. In the class of \<^verbatim>\<open>src/src/zip.js\<close>, whatever comment is passed
  to \<^verbatim>\<open>toUint8Array\<close>, the trailer is built (\<^verbatim>\<open>_getEOCD\<close> has no failing branch): its
  comment is the first 65535 characters of a string comment and the empty comment for
  anything that is not a string, and its comment length field says so.
\<close>

theorem eocd_comment_clamped:
  "eocd_comment (Zipper_getEOCD z c) = Zipper_stringToBytes (comment_spec c)
   \<and> le_value (eocd_comment_length (Zipper_getEOCD z c)) = length (comment_spec c)
   \<and> length (comment_spec c) \<le> 65535
   \<and> toUint8Array z c = concat (parts z) @ concat (cd z) @ Zipper_getEOCD z c"
proof -
  have "length (comment_spec c) < 65536"
    using length_comment_spec [of c] by simp
  then have "le_value (numberToBytes (int (length (comment_spec c))) 2) = length (comment_spec c)"
    by (rule le_value_numberToBytes_2_nat)
  then show ?thesis
    by (simp add: eocd_comment_fields length_comment_spec toUint8Array_def)
qed

text \<open>
  The claim as stated fails for \<^verbatim>\<open>_pack\<close> of \<^verbatim>\<open>src/zip.js\<close>: \<^verbatim>\<open>validateComment\<close> throws on a
  comment of 65536 characters, and no archive is produced.
\<close>

theorem long_comment_counterexample:
  "pack (Some long_comment) (\<lambda>k. leap_day) [] = Inl CommentTooLong
   \<and> toBlob (Some long_comment) (\<lambda>k. leap_day) [] = Inl CommentTooLong"
  by (simp add: toBlob_def pack_def validateComment_def long_comment_def)

section \<open>Absent payloads\<close>

lemma dataToBytes_falsy: "\<not> truthy d \<Longrightarrow> dataToBytes d = Some []"
  by (cases d) simp_all

lemma local_sizes_empty: "local_sizes (entry_localHeader date name []) = [0, 0, 0, 0, 0, 0, 0, 0]"
  by (simp add: local_sizes_def entry_localHeader_def localHeader_def Let_def numberToBytes_4)

text \<open>
  Claim C10. A falsy payload (\<^verbatim>\<open>undefined\<close>, \<^verbatim>\<open>null\<close>, \<^verbatim>\<open>false\<close>, \<^verbatim>\<open>0\<close>, \<^verbatim>\<open>NaN\<close>, the empty
  string) is handled as an empty byte buffer by \<^verbatim>\<open>addFile\<close> of \<^verbatim>\<open>src/src/zip.js\<close> and by
  \<^verbatim>\<open>addEntry\<close> of \<^verbatim>\<open>src/zip.js\<close>: where the path passes the checks, the entry is
  registered with data of length 0 (and size fields 0 in its local header).
\<close>

theorem falsy_payload_is_empty:
  assumes "\<not> truthy d"
  shows "addFile z date p d = addFile z date p (JUint8Array [])
    \<and> addEntry es p0 d = addEntry es p0 (JUint8Array [])
    \<and> (entry_filename z p False = Some name \<longrightarrow>
         addFile z date p d =
           z\<lparr>parts := parts z @ [entry_localHeader date name [], []],
             cd := cd z @ [entry_cdHeader date name [] False (total_length (parts z))]\<rparr>
         \<and> local_sizes (entry_localHeader date name []) = [0, 0, 0, 0, 0, 0, 0, 0])
    \<and> (check_path es (normalize_path p0) = None \<longrightarrow>
         addEntry es p0 d = Inr (es @ [\<lparr>path = normalize_path p0, data = []\<rparr>]))"
  using dataToBytes_falsy [OF assms]
  by (simp add: addFile_def Zipper_addEntry_def addEntry_def Let_def local_sizes_empty
      split: option.split)

theorem falsy_payload_is_empty_witness:
  "\<not> truthy JNull
   \<and> entry_filename Zipper_new (JString (js ''a'')) False = Some (js ''a'')
   \<and> addFile Zipper_new leap_day (JString (js ''a'')) JNull =
       Zipper_new\<lparr>parts := parts Zipper_new @ [entry_localHeader leap_day (js ''a'') [], []],
         cd := cd Zipper_new
           @ [entry_cdHeader leap_day (js ''a'') [] False (total_length (parts Zipper_new))]\<rparr>
   \<and> check_path [] (normalize_path (js ''a'')) = None
   \<and> addEntry [] (js ''a'') JNull =
       Inr ([] @ [\<lparr>path = normalize_path (js ''a''), data = []\<rparr>])"
proof -
  have f: "entry_filename Zipper_new (JString (js ''a'')) False = Some (js ''a'')"
    by (simp add: path_eval getNames_def Zipper_new_def)
  have n: "normalize_path (js ''a'') = js ''a''"
    by (simp add: normalize_path_def js_def control_char_def trim_def js_whitespace_def
        strip_trailing_slash_def strip_leading_slash_def slash_def)
  have c: "check_path [] (normalize_path (js ''a'')) = None"
    unfolding n
    by (simp add: check_path_def hasFile_def getFile_def hasFolder_def getFolder_def
        getFolderPathsFromPath_def js_def slash_def list_ex_iff Let_def)
  have t: "\<not> truthy JNull"
    by simp
  from falsy_payload_is_empty
    [OF t, of Zipper_new leap_day "JString (js ''a'')" "[]" "js ''a''" "js ''a''"] f c
    t
  show ?thesis
    by blast
qed

end
